theory Spec2Isabelle
  imports Main "HOL-Library.Word"
begin

section \<open>Machine integers, errors and the Duration record\<close>

text \<open>
  Go's \<open>int\<close> is taken at its 64-bit width (every 64-bit platform), and
  \<open>time.Duration\<close> is an \<open>int64\<close> count of nanoseconds. Both are 64-bit words:
  \<open>+\<close> and \<open>*\<close> wrap around, \<open>sint\<close> reads the signed value.
\<close>

type_synonym int64 = "64 word"

text \<open>
  The errors \<open>FromString\<close> can return: the package's \<open>ErrBadFormat\<close>, the
  \<open>*strconv.NumError\<close> of \<open>strconv.Atoi\<close> (with its \<open>Err\<close> field either
  \<open>ErrRange\<close> or \<open>ErrSyntax\<close>, and the offending text), and the
  \<open>unknown field\<close> error of the \<open>default\<close> branch. \<open>IndexPanic\<close> stands for the
  run-time panic of an index out of range.
\<close>

datatype error =
  ErrBadFormat
  | NumErrorRange string
  | NumErrorSyntax string
  | UnknownField string
  | IndexPanic

record Duration =
  Years :: int64
  Months :: int64
  Weeks :: int64
  Days :: int64
  Hours :: int64
  Minutes :: int64
  Seconds :: int64

definition zeroDuration :: Duration where
  "zeroDuration =
     \<lparr>Years = 0, Months = 0, Weeks = 0, Days = 0, Hours = 0, Minutes = 0, Seconds = 0\<rparr>"

section \<open>Decimal text: strconv.Atoi and the formatting of an int\<close>

definition isDigit :: "char \<Rightarrow> bool" where
  "isDigit c = (48 \<le> (of_char c :: nat) \<and> (of_char c :: nat) \<le> 57)"

definition digitVal :: "char \<Rightarrow> nat" where
  "digitVal c = (of_char c :: nat) - 48"

definition digitChar :: "nat \<Rightarrow> char" where
  "digitChar n = ''0123456789'' ! n"

text \<open>The value of a run of decimal digits, most significant digit first.\<close>

definition decimal :: "string \<Rightarrow> nat" where
  "decimal ds = foldl (\<lambda>a c. 10 * a + digitVal c) 0 ds"

text \<open>
  \<open>strconv.Atoi\<close>: an optional sign, then one or more decimal digits; anything else
  is a syntax error, and a value outside the range of \<open>int\<close> is a range error.
\<close>

definition maxInt :: nat where
  "maxInt = 2 ^ 63 - 1"

definition Atoi :: "string \<Rightarrow> error + int64" where
  "Atoi s =
     (let neg = (s \<noteq> [] \<and> hd s = CHR ''-'');
          body = (if s \<noteq> [] \<and> (hd s = CHR ''-'' \<or> hd s = CHR ''+'') then tl s else s)
      in if body = [] \<or> \<not> list_all isDigit body then Inl (NumErrorSyntax s)
         else if neg then
           (if decimal body > maxInt + 1 then Inl (NumErrorRange s)
            else Inr (- word_of_nat (decimal body)))
         else
           (if decimal body > maxInt then Inl (NumErrorRange s)
            else Inr (word_of_nat (decimal body))))"

text \<open>
  The decimal text of a natural number, and of a signed integer
  (\<open>strconv.FormatInt(v, 10)\<close>, which is how the template prints an \<open>int\<close>).
\<close>

function decNat :: "nat \<Rightarrow> string" where
  "decNat n = (if n < 10 then [digitChar n] else decNat (n div 10) @ [digitChar (n mod 10)])"
  by pat_completeness auto
termination
  by (relation "measure id") auto

declare decNat.simps [simp del]

definition FormatInt :: "int \<Rightarrow> string" where
  "FormatInt i = (if i < 0 then CHR ''-'' # decNat (nat (- i)) else decNat (nat i))"

section \<open>The regular expression \<open>full\<close> and its matcher\<close>

text \<open>
  The fragment of the regexp syntax that \<open>full\<close> uses: a literal character, the class
  \<open>\d\<close>, greedy \<open>+\<close> and \<open>?\<close>, concatenation, and a capture group with its index
  and its name (empty for an unnamed group).
\<close>

datatype regex =
  Lit char
  | Digit
  | Plus regex
  | Quest regex
  | Cat regex regex
  | Group nat string regex

text \<open>
  A matcher state is the input still to read and the captures made so far. \<open>run\<close>
  lists every way the expression can match at the head of the input, in the order a
  backtracking engine tries them: the first element is the leftmost-first match that
  Go's \<open>regexp\<close> reports. A greedy \<open>?\<close> tries its body before the empty match, a
  greedy \<open>+\<close> tries one more repetition before it stops. (The repetition count of
  \<open>+\<close> is bounded by the length of the input plus one; a body that consumes a
  character each time, as \<open>\d\<close> does, never reaches the bound.)
\<close>

type_synonym caps = "nat \<rightharpoonup> string"
type_synonym mstate = "string \<times> caps"

fun iter :: "nat \<Rightarrow> (mstate \<Rightarrow> mstate list) \<Rightarrow> mstate \<Rightarrow> mstate list" where
  "iter 0 f st = []"
| "iter (Suc n) f st = concat (map (\<lambda>st'. iter n f st' @ [st']) (f st))"

primrec run :: "regex \<Rightarrow> mstate \<Rightarrow> mstate list" where
  "run (Lit c) = (\<lambda>(s, k). case s of [] \<Rightarrow> [] | x # xs \<Rightarrow> if x = c then [(xs, k)] else [])"
| "run Digit = (\<lambda>(s, k). case s of [] \<Rightarrow> [] | x # xs \<Rightarrow> if isDigit x then [(xs, k)] else [])"
| "run (Plus a) = (\<lambda>st. iter (Suc (length (fst st))) (run a) st)"
| "run (Quest a) = (\<lambda>st. run a st @ [st])"
| "run (Cat a b) = (\<lambda>st. concat (map (run b) (run a st)))"
| "run (Group i nm a) =
     (\<lambda>(s, k). map (\<lambda>(s', k'). (s', k'(i \<mapsto> take (length s - length s') s))) (run a (s, k)))"

text \<open>
  The expression is not anchored, so a match may start at any position: the search
  tries the positions from left to right and returns the start index, the matched text
  and the captures of the first position where the expression matches.
\<close>

fun leftmost :: "regex \<Rightarrow> string \<Rightarrow> nat \<Rightarrow> (nat \<times> string \<times> caps) option" where
  "leftmost re s i =
     (case run re (s, Map.empty) of
        (s', k) # _ \<Rightarrow> Some (i, take (length s - length s') s, k)
      | [] \<Rightarrow> (case s of [] \<Rightarrow> None | _ # t \<Rightarrow> leftmost re t (Suc i)))"

declare leftmost.simps [simp del]

text \<open>The names of the capture groups in the order of their opening parentheses.\<close>

primrec groupNames :: "regex \<Rightarrow> (nat \<times> string) list" where
  "groupNames (Lit c) = []"
| "groupNames Digit = []"
| "groupNames (Plus a) = groupNames a"
| "groupNames (Quest a) = groupNames a"
| "groupNames (Cat a b) = groupNames a @ groupNames b"
| "groupNames (Group i nm a) = (i, nm) # groupNames a"

definition SubexpNames :: "regex \<Rightarrow> string list" where
  "SubexpNames re = [] # map snd (groupNames re)"

definition MatchString :: "regex \<Rightarrow> string \<Rightarrow> bool" where
  "MatchString re s = (leftmost re s 0 \<noteq> None)"

text \<open>
  \<open>FindStringSubmatch\<close>: \<open>nil\<close> when there is no match; otherwise the matched text
  followed by the text of every group, the empty string for a group that took no part.
\<close>

definition capText :: "caps \<Rightarrow> nat \<Rightarrow> string" where
  "capText k i = (case k i of None \<Rightarrow> [] | Some t \<Rightarrow> t)"

definition FindStringSubmatch :: "regex \<Rightarrow> string \<Rightarrow> string list option" where
  "FindStringSubmatch re s =
     (case leftmost re s 0 of
        None \<Rightarrow> None
      | Some (i, m, k) \<Rightarrow> Some (m # map (\<lambda>g. capText k (fst g)) (groupNames re)))"

text \<open>One optional unit: \<open>((?P<name>\d+)c)?\<close>, the outer group \<open>i\<close>, the named one \<open>i + 1\<close>.\<close>

definition unitGroup :: "nat \<Rightarrow> string \<Rightarrow> char \<Rightarrow> regex" where
  "unitGroup i nm c = Quest (Group i [] (Cat (Group (Suc i) nm (Plus Digit)) (Lit c)))"

definition full :: regex where
  "full =
     Cat (Lit CHR ''P'')
    (Cat (unitGroup 1 ''year'' CHR ''Y'')
    (Cat (unitGroup 3 ''month'' CHR ''M'')
    (Cat (unitGroup 5 ''week'' CHR ''W'')
    (Cat (unitGroup 7 ''day'' CHR ''D'')
         (Quest (Group 9 []
            (Cat (Lit CHR ''T'')
            (Cat (unitGroup 10 ''hour'' CHR ''H'')
            (Cat (unitGroup 12 ''minute'' CHR ''M'')
                 (unitGroup 14 ''second'' CHR ''S''))))))))))"

section \<open>FromString\<close>

text \<open>The \<open>switch\<close> on the group's name.\<close>

definition setField :: "string \<Rightarrow> int64 \<Rightarrow> Duration \<Rightarrow> error + Duration" where
  "setField name val d =
     (if name = ''year'' then Inr (d\<lparr>Years := val\<rparr>)
      else if name = ''month'' then Inr (d\<lparr>Months := val\<rparr>)
      else if name = ''week'' then Inr (d\<lparr>Weeks := val\<rparr>)
      else if name = ''day'' then Inr (d\<lparr>Days := val\<rparr>)
      else if name = ''hour'' then Inr (d\<lparr>Hours := val\<rparr>)
      else if name = ''minute'' then Inr (d\<lparr>Minutes := val\<rparr>)
      else if name = ''second'' then Inr (d\<lparr>Seconds := val\<rparr>)
      else Inl (UnknownField name))"

text \<open>
  The loop \<open>for i, name := range re.SubexpNames()\<close>, reading \<open>match[i]\<close>: an index
  beyond the end of \<open>match\<close> panics.
\<close>

fun fieldLoop :: "string list \<Rightarrow> string list \<Rightarrow> nat \<Rightarrow> Duration \<Rightarrow> error + Duration" where
  "fieldLoop [] match i d = Inr d"
| "fieldLoop (name # names) match i d =
     (if length match \<le> i then Inl IndexPanic
      else let part = match ! i in
        if i = 0 \<or> name = [] \<or> part = [] then fieldLoop names match (Suc i) d
        else (case Atoi part of
                Inl err \<Rightarrow> Inl err
              | Inr val \<Rightarrow>
                  (case setField name val d of
                     Inl err \<Rightarrow> Inl err
                   | Inr d' \<Rightarrow> fieldLoop names match (Suc i) d')))"

definition FromString :: "string \<Rightarrow> error + Duration" where
  "FromString dur =
     (if MatchString full dur then
        (case FindStringSubmatch full dur of
           None \<Rightarrow> Inl IndexPanic
         | Some match \<Rightarrow> fieldLoop (SubexpNames full) match 0 zeroDuration)
      else Inl ErrBadFormat)"

section \<open>String: the template and its execution\<close>

text \<open>
  The nodes of the parsed template \<open>tmpl\<close>: literal text, an action that prints a
  field of the data (\<open>{{.Years}}\<close>), and \<open>{{if .X}} ... {{end}}\<close>.
\<close>

datatype node =
  TextNode string
  | ActionNode string
  | IfNode string "node list"

text \<open>What a field or method of a \<open>*Duration\<close> evaluates to in the template.\<close>

datatype tvalue = IntVal int64 | BoolVal bool

definition HasTimePart :: "Duration \<Rightarrow> bool" where
  "HasTimePart d = (Hours d \<noteq> 0 \<or> Minutes d \<noteq> 0 \<or> Seconds d \<noteq> 0)"

text \<open>
  \<open>.Name\<close> applied to the \<open>*Duration\<close>: one of the seven fields or the method
  \<open>HasTimePart\<close>; any other name is an execution error.
\<close>

definition evalField :: "Duration \<Rightarrow> string \<Rightarrow> tvalue option" where
  "evalField d name =
     (if name = ''Years'' then Some (IntVal (Years d))
      else if name = ''Months'' then Some (IntVal (Months d))
      else if name = ''Weeks'' then Some (IntVal (Weeks d))
      else if name = ''Days'' then Some (IntVal (Days d))
      else if name = ''Hours'' then Some (IntVal (Hours d))
      else if name = ''Minutes'' then Some (IntVal (Minutes d))
      else if name = ''Seconds'' then Some (IntVal (Seconds d))
      else if name = ''HasTimePart'' then Some (BoolVal (HasTimePart d))
      else None)"

text \<open>The truth of a pipeline in \<open>if\<close>: an integer is true unless it is 0.\<close>

definition isTrue :: "tvalue \<Rightarrow> bool" where
  "isTrue v = (case v of IntVal i \<Rightarrow> i \<noteq> 0 | BoolVal b \<Rightarrow> b)"

definition printValue :: "tvalue \<Rightarrow> string" where
  "printValue v =
     (case v of IntVal i \<Rightarrow> FormatInt (sint i) | BoolVal b \<Rightarrow> (if b then ''true'' else ''false''))"

text \<open>The error of \<open>tmpl.Execute\<close>, which \<open>String\<close> turns into a panic.\<close>

datatype execError = CannotEvaluate string

fun walk :: "Duration \<Rightarrow> node \<Rightarrow> execError + string"
  and walkList :: "Duration \<Rightarrow> node list \<Rightarrow> execError + string" where
  "walk d (TextNode t) = Inr t"
| "walk d (ActionNode name) =
     (case evalField d name of
        None \<Rightarrow> Inl (CannotEvaluate name)
      | Some v \<Rightarrow> Inr (printValue v))"
| "walk d (IfNode name body) =
     (case evalField d name of
        None \<Rightarrow> Inl (CannotEvaluate name)
      | Some v \<Rightarrow> if isTrue v then walkList d body else Inr [])"
| "walkList d [] = Inr []"
| "walkList d (n # ns) =
     (case walk d n of
        Inl err \<Rightarrow> Inl err
      | Inr out \<Rightarrow>
          (case walkList d ns of
             Inl err \<Rightarrow> Inl err
           | Inr rest \<Rightarrow> Inr (out @ rest)))"

definition tmpl :: "node list" where
  "tmpl =
     [TextNode ''P'',
      IfNode ''Years'' [ActionNode ''Years'', TextNode ''Y''],
      IfNode ''Months'' [ActionNode ''Months'', TextNode ''M''],
      IfNode ''Weeks'' [ActionNode ''Weeks'', TextNode ''W''],
      IfNode ''Days'' [ActionNode ''Days'', TextNode ''D''],
      IfNode ''HasTimePart'' [TextNode ''T''],
      IfNode ''Hours'' [ActionNode ''Hours'', TextNode ''H''],
      IfNode ''Minutes'' [ActionNode ''Minutes'', TextNode ''M''],
      IfNode ''Seconds'' [ActionNode ''Seconds'', TextNode ''S'']]"

text \<open>
  \<open>String\<close>: the text that executing the template writes, or the panic raised when
  the execution returns an error (\<open>Inl\<close>).
\<close>

definition String :: "Duration \<Rightarrow> execError + string" where
  "String d = (case walkList d tmpl of Inl err \<Rightarrow> Inl err | Inr out \<Rightarrow> Inr out)"

section \<open>The resolvers\<close>

text \<open>The constants of the \<open>time\<close> package, in nanoseconds.\<close>

definition Nanosecond :: int64 where "Nanosecond = 1"
definition Microsecond :: int64 where "Microsecond = 1000 * Nanosecond"
definition Millisecond :: int64 where "Millisecond = 1000 * Microsecond"
definition Second :: int64 where "Second = 1000 * Millisecond"
definition Minute :: int64 where "Minute = 60 * Second"
definition Hour :: int64 where "Hour = 60 * Minute"

text \<open>
  \<open>ToEstimatedDuration\<close>: every product and sum is an \<open>int64\<close> operation and wraps
  around. The conversion \<open>time.Duration(d.Years)\<close> of a 64-bit \<open>int\<close> is the
  identity.
\<close>

definition ToEstimatedDuration :: "Duration \<Rightarrow> int64" where
  "ToEstimatedDuration d =
     (let day = Hour * 24;
          month = day * 30;
          year = day * 365;
          tot = 0;
          tot = tot + year * Years d;
          tot = tot + month * Months d;
          tot = tot + day * 7 * Weeks d;
          tot = tot + day * Days d;
          tot = tot + Hour * Hours d;
          tot = tot + Minute * Minutes d;
          tot = tot + Second * Seconds d
      in tot)"

text \<open>
  \<open>ToDuration\<close> calls three methods of \<open>time.Time\<close>. They are not code of this
  package, so the function takes them as a record of operations over a type of
  instants: \<open>AddDate t years months days\<close>, \<open>Add t d\<close> and \<open>Sub t u\<close>. The
  arguments of \<open>AddDate\<close> are Go \<open>int\<close>s, so \<open>7*d.Weeks\<close> is a 64-bit product, and
  \<open>time.Duration(d.Hours) * time.Hour\<close> is an \<open>int64\<close> product: both wrap around.
\<close>

record 't timePkg =
  AddDate :: "'t \<Rightarrow> int64 \<Rightarrow> int64 \<Rightarrow> int64 \<Rightarrow> 't"
  Add :: "'t \<Rightarrow> int64 \<Rightarrow> 't"
  Sub :: "'t \<Rightarrow> 't \<Rightarrow> int64"

definition ToDuration :: "'t timePkg \<Rightarrow> Duration \<Rightarrow> 't \<Rightarrow> int64" where
  "ToDuration T d from =
     (let targetTime =
            Add T
              (Add T
                (Add T
                  (AddDate T
                    (AddDate T
                      (AddDate T from (Years d) (Months d) 0)
                      0 0 (7 * Weeks d))
                    0 0 (Days d))
                  (Hours d * Hour))
                (Minutes d * Minute))
              (Seconds d * Second)
      in Sub T targetTime from)"

subsection \<open>The time package on instants in UTC\<close>

text \<open>
  A model of the three operations for instants in UTC, following the documentation of
  package \<open>time\<close>. An instant is its number of nanoseconds since
  0001-01-01 00:00:00 UTC, an unbounded integer (the package's own range of instants is
  far wider than the spans of \<open>int64\<close> nanoseconds considered here). A monotonic clock
  reading plays no part: \<open>AddDate\<close> builds its result with \<open>Date\<close>, which carries
  none, so \<open>Sub\<close> compares wall-clock instants.

  The calendar is the proleptic Gregorian one. \<open>daysBeforeYear y\<close> counts the days from
  0001-01-01 to the first day of year \<open>y\<close>, \<open>daysBeforeMonth y m\<close> the days of year
  \<open>y\<close> before month \<open>m\<close>.
\<close>

definition isLeap :: "int \<Rightarrow> bool" where
  "isLeap y = (y mod 4 = 0 \<and> (y mod 100 \<noteq> 0 \<or> y mod 400 = 0))"

definition daysBeforeYear :: "int \<Rightarrow> int" where
  "daysBeforeYear y = 365 * (y - 1) + (y - 1) div 4 - (y - 1) div 100 + (y - 1) div 400"

definition daysBefore :: "int list" where
  "daysBefore = [0, 31, 59, 90, 120, 151, 181, 212, 243, 273, 304, 334, 365]"

definition daysBeforeMonth :: "int \<Rightarrow> nat \<Rightarrow> int" where
  "daysBeforeMonth y m = daysBefore ! (m - 1) + (if isLeap y \<and> 3 \<le> m then 1 else 0)"

text \<open>
  \<open>Date\<close> normalises a month outside 1..12 into the year and accepts any day number:
  October 32 is November 1. \<open>dayNumber y m d\<close> is the day, counted from 0001-01-01,
  of the date it denotes.
\<close>

definition dayNumber :: "int \<Rightarrow> int \<Rightarrow> int \<Rightarrow> int" where
  "dayNumber y m d =
     (let y' = y + (m - 1) div 12;
          m' = nat ((m - 1) mod 12) + 1
      in daysBeforeYear y' + daysBeforeMonth y' m' + (d - 1))"

text \<open>
  The calendar date of a day from 0001-01-01 on: the year is the last one that begins
  on or before the day, found by counting up from a lower estimate, and the month is
  the last one of that year that begins on or before the day. (The package computes the
  same date by other means.)
\<close>

function findYear :: "int \<Rightarrow> int \<Rightarrow> int" where
  "findYear n y = (if daysBeforeYear (y + 1) \<le> n then findYear n (y + 1) else y)"
  by pat_completeness auto
termination
proof (relation "measure (\<lambda>(n, y). nat (n + 1 - daysBeforeYear (y + 1)))")
  show "wf (measure (\<lambda>(n, y). nat (n + 1 - daysBeforeYear (y + 1))))" by simp
next
  fix n y :: int
  assume a: "daysBeforeYear (y + 1) \<le> n"
  have "daysBeforeYear (y + 1) < daysBeforeYear (y + 1 + 1)"
    unfolding daysBeforeYear_def by (simp add: algebra_simps)
  with a show "((n, y + 1), (n, y)) \<in> measure (\<lambda>(n, y). nat (n + 1 - daysBeforeYear (y + 1)))"
    by simp
qed

declare findYear.simps [simp del]

definition findMonth :: "int \<Rightarrow> int \<Rightarrow> nat" where
  "findMonth y yday = last (filter (\<lambda>m. daysBeforeMonth y m \<le> yday) [1 ..< 13])"

definition civil :: "int \<Rightarrow> int \<times> nat \<times> int" where
  "civil n =
     (let y = findYear n (n div 366 + 1);
          yday = n - daysBeforeYear y;
          m = findMonth y yday
      in (y, m, yday - daysBeforeMonth y m + 1))"

definition nanosPerDay :: int where
  "nanosPerDay = 86400 * 1000000000"

text \<open>
  \<open>AddDate\<close>: the date of the instant with the years, months and days added, normalised
  as \<open>Date\<close> does, at the same time of day.
\<close>

definition dateAdd :: "int \<Rightarrow> int \<Rightarrow> int \<Rightarrow> int \<Rightarrow> int" where
  "dateAdd t years months days =
     (case civil (t div nanosPerDay) of
        (y, m, d) \<Rightarrow>
          dayNumber (y + years) (int m + months) (d + days) * nanosPerDay + t mod nanosPerDay)"

text \<open>
  \<open>Sub\<close>: the difference, or the largest or smallest \<open>time.Duration\<close> when the
  difference does not fit.
\<close>

definition subSaturating :: "int \<Rightarrow> int \<Rightarrow> int64" where
  "subSaturating t u =
     (if 2 ^ 63 \<le> t - u then word_of_int (2 ^ 63 - 1)
      else if t - u < - (2 ^ 63) then word_of_int (- (2 ^ 63))
      else word_of_int (t - u))"

definition utc :: "int timePkg" where
  "utc =
     \<lparr>AddDate = (\<lambda>t years months days. dateAdd t (sint years) (sint months) (sint days)),
      Add = (\<lambda>t d. t + sint d),
      Sub = subSaturating\<rparr>"

section \<open>A deterministic scanner that computes the first match of \<open>full\<close>\<close>

text \<open>
  The definitions of this section are not part of the program: they describe, directly on
  the input text, what the backtracking matcher finds first, and the lemmas prove that
  the description is exact. \<open>unitDigits c s\<close> is the digit run that the optional unit
  with letter \<open>c\<close> captures at the head of \<open>s\<close> (empty when the unit is skipped).
\<close>


fun digitRuns :: "string \<Rightarrow> caps \<Rightarrow> mstate list" where
  "digitRuns [] k = []"
| "digitRuns (x # xs) k = (if isDigit x then digitRuns xs k @ [(xs, k)] else [])"

definition unitDigits :: "char \<Rightarrow> string \<Rightarrow> string" where
  "unitDigits c s =
     (if takeWhile isDigit s \<noteq> [] \<and> dropWhile isDigit s \<noteq> [] \<and> hd (dropWhile isDigit s) = c
      then takeWhile isDigit s else [])"

definition seg :: "string \<Rightarrow> char \<Rightarrow> string" where
  "seg p c = (if p = [] then [] else p @ [c])"

definition scanUnit :: "nat \<Rightarrow> char \<Rightarrow> mstate \<Rightarrow> mstate" where
  "scanUnit i c st =
     (case st of (s, k) \<Rightarrow>
        let p = unitDigits c s
        in if p = [] then (s, k) else (drop (Suc (length p)) s, k(Suc i \<mapsto> p, i \<mapsto> p @ [c])))"

lemma iter_Digit: "length s < m \<Longrightarrow> iter m (run Digit) (s, k) = digitRuns s k"
proof (induction s arbitrary: m)
  case Nil
  then show ?case by (cases m) simp_all
next
  case (Cons x xs)
  then obtain m' where m: "m = Suc m'" and "length xs < m'" by (cases m) auto
  with Cons.IH [of m'] show ?case by simp
qed

lemma run_Plus_Digit: "run (Plus Digit) (s, k) = digitRuns s k"
  by (simp only: run.simps(3) fst_conv iter_Digit [OF lessI])

lemma digitRuns_shorter: "(s', k') \<in> set (digitRuns s k) \<Longrightarrow> length s' < length s"
  by (induction s arbitrary: s') (auto split: if_splits simp: less_Suc_eq)


lemma digits_then_Lit:
  assumes "\<not> isDigit c"
  shows "concat (map (\<lambda>(s', k'). run (Lit c) (s', k'(j \<mapsto> pre @ take (length s - length s') s)))
           (digitRuns s k)) =
         (if takeWhile isDigit s \<noteq> [] \<and> dropWhile isDigit s \<noteq> [] \<and> hd (dropWhile isDigit s) = c
          then [(tl (dropWhile isDigit s), k(j \<mapsto> pre @ takeWhile isDigit s))] else [])"
proof (induction s arbitrary: pre)
  case Nil
  show ?case by simp
next
  case (Cons x xs)
  show ?case
  proof (cases "isDigit x")
    case False
    then show ?thesis by simp
  next
    case True
    have eq: "map (\<lambda>(s', k'). run (Lit c) (s', k'(j \<mapsto> pre @ take (length (x # xs) - length s') (x # xs))))
                (digitRuns xs k) =
              map (\<lambda>(s', k'). run (Lit c) (s', k'(j \<mapsto> (pre @ [x]) @ take (length xs - length s') xs)))
                (digitRuns xs k)"
    proof (rule map_cong [OF refl])
      fix st assume "st \<in> set (digitRuns xs k)"
      then have "length (fst st) < length xs"
        using digitRuns_shorter [of "fst st" "snd st" xs k] by simp
      then have "take (length (x # xs) - length (fst st)) (x # xs) =
                 x # take (length xs - length (fst st)) xs"
        by (simp add: Suc_diff_le less_imp_le)
      then show "(case st of (s', k') \<Rightarrow>
                    run (Lit c) (s', k'(j \<mapsto> pre @ take (length (x # xs) - length s') (x # xs)))) =
                 (case st of (s', k') \<Rightarrow>
                    run (Lit c) (s', k'(j \<mapsto> (pre @ [x]) @ take (length xs - length s') xs)))"
        by (simp add: case_prod_unfold del: run.simps)
    qed
    let ?g = "\<lambda>(s', k'). run (Lit c) (s', k'(j \<mapsto> pre @ take (length (x # xs) - length s') (x # xs)))"
    have split: "concat (map ?g (digitRuns (x # xs) k)) =
                 concat (map ?g (digitRuns xs k)) @ run (Lit c) (xs, k(j \<mapsto> pre @ [x]))"
      using True by (simp del: run.simps)
    show ?thesis
    proof (cases "takeWhile isDigit xs = []")
      case stop: True
      then have dw: "dropWhile isDigit xs = xs"
        by (cases xs) (auto split: if_splits)
      have "concat (map ?g (digitRuns xs k)) = []"
        unfolding eq Cons.IH [of "pre @ [x]"] using stop by simp
      then show ?thesis
        unfolding split using True stop dw by (cases xs) auto
    next
      case more: False
      then obtain y ys where xs: "xs = y # ys" and y: "isDigit y"
        by (cases xs) (auto split: if_splits)
      with assms have "y \<noteq> c" by auto
      then have "run (Lit c) (xs, k(j \<mapsto> pre @ [x])) = []"
        by (simp add: xs)
      then show ?thesis
        unfolding split eq Cons.IH [of "pre @ [x]"] using True more by (simp add: fun_upd_def)
    qed
  qed
qed


lemma run_unit_body:
  assumes "\<not> isDigit c"
  shows "run (Cat (Group j nm (Plus Digit)) (Lit c)) (s, k) =
         (if takeWhile isDigit s \<noteq> [] \<and> dropWhile isDigit s \<noteq> [] \<and> hd (dropWhile isDigit s) = c
          then [(tl (dropWhile isDigit s), k(j \<mapsto> takeWhile isDigit s))] else [])"
proof -
  have "run (Cat (Group j nm (Plus Digit)) (Lit c)) (s, k) =
        concat (map (\<lambda>(s', k'). run (Lit c) (s', k'(j \<mapsto> take (length s - length s') s)))
           (digitRuns s k))"
    by (simp add: run_Plus_Digit map_map comp_def case_prod_unfold del: run.simps(1,3))
  then show ?thesis
    using digits_then_Lit [OF assms, of j "[]" s k] by (simp del: run.simps)
qed

lemma length_tl_dropWhile:
  "dropWhile P s \<noteq> [] \<Longrightarrow>
   length s - length (tl (dropWhile P s)) = Suc (length (takeWhile P s))"
proof -
  assume a: "dropWhile P s \<noteq> []"
  have "length s = length (takeWhile P s) + length (dropWhile P s)"
    by (metis length_append takeWhile_dropWhile_id)
  with a show ?thesis by (cases "dropWhile P s") auto
qed

lemma take_Suc_takeWhile:
  "dropWhile P s \<noteq> [] \<Longrightarrow>
   take (Suc (length (takeWhile P s))) s = takeWhile P s @ [hd (dropWhile P s)]"
proof -
  assume a: "dropWhile P s \<noteq> []"
  have "take (Suc (length (takeWhile P s))) (takeWhile P s @ dropWhile P s) =
        takeWhile P s @ [hd (dropWhile P s)]"
    using a by (cases "dropWhile P s") auto
  then show ?thesis by simp
qed

lemma tl_dropWhile: "tl (dropWhile P s) = drop (Suc (length (takeWhile P s))) s"
  by (simp add: dropWhile_eq_drop drop_Suc drop_tl)

lemma run_unitGroup:
  assumes "\<not> isDigit c"
  shows "run (unitGroup i nm c) st =
         (if unitDigits c (fst st) \<noteq> [] then [scanUnit i c st, st] else [st])"
proof (cases st)
  case (Pair s k)
  show ?thesis
    unfolding unitGroup_def Pair run.simps(4) run.simps(6) [of i] run_unit_body [OF assms]
    by (simp add: scanUnit_def unitDigits_def Let_def length_tl_dropWhile take_Suc_takeWhile
          tl_dropWhile [symmetric] del: run.simps length_tl)
qed

lemma hd_run_unitGroup:
  "\<not> isDigit c \<Longrightarrow> hd (run (unitGroup i nm c) st) = scanUnit i c st"
  by (cases st) (simp add: run_unitGroup scanUnit_def Let_def)

lemma run_unitGroup_nonempty:
  "\<not> isDigit c \<Longrightarrow> run (unitGroup i nm c) st \<noteq> []"
  by (simp add: run_unitGroup)


definition timePart :: regex where
  "timePart =
     Quest (Group 9 []
       (Cat (Lit CHR ''T'')
       (Cat (unitGroup 10 ''hour'' CHR ''H'')
       (Cat (unitGroup 12 ''minute'' CHR ''M'')
            (unitGroup 14 ''second'' CHR ''S'')))))"

definition afterP :: regex where
  "afterP =
     Cat (unitGroup 1 ''year'' CHR ''Y'')
    (Cat (unitGroup 3 ''month'' CHR ''M'')
    (Cat (unitGroup 5 ''week'' CHR ''W'')
    (Cat (unitGroup 7 ''day'' CHR ''D'') timePart)))"

definition scanTime :: "mstate \<Rightarrow> mstate" where
  "scanTime st =
     (case st of (s, k) \<Rightarrow>
        (case s of
           [] \<Rightarrow> (s, k)
         | x # s1 \<Rightarrow>
             if x = CHR ''T'' then
               (case scanUnit 14 CHR ''S'' (scanUnit 12 CHR ''M'' (scanUnit 10 CHR ''H'' (s1, k))) of
                  (s4, k4) \<Rightarrow> (s4, k4(9 \<mapsto> take (length s - length s4) s)))
             else (s, k)))"

definition scanAfterP :: "string \<Rightarrow> mstate" where
  "scanAfterP s0 =
     scanTime (scanUnit 7 CHR ''D'' (scanUnit 5 CHR ''W'' (scanUnit 3 CHR ''M''
       (scanUnit 1 CHR ''Y'' (s0, Map.empty)))))"

lemma full_afterP: "full = Cat (Lit CHR ''P'') afterP"
  by (simp add: full_def afterP_def timePart_def)

definition always :: "regex \<Rightarrow> bool" where
  "always r = (\<forall>st. run r st \<noteq> [])"

definition first :: "regex \<Rightarrow> mstate \<Rightarrow> mstate" where
  "first r st = hd (run r st)"

lemma hd_concat_map:
  "xs \<noteq> [] \<Longrightarrow> f (hd xs) \<noteq> [] \<Longrightarrow> hd (concat (map f xs)) = hd (f (hd xs))"
  by (cases xs) auto

lemma alwaysD: "always r \<Longrightarrow> run r st \<noteq> []"
  unfolding always_def by blast

lemma always_Cat: "always a \<Longrightarrow> always b \<Longrightarrow> always (Cat a b)"
proof -
  assume a: "always a" and b: "always b"
  have "run (Cat a b) st \<noteq> []" for st
  proof -
    from alwaysD [OF a, of st] obtain y ys where "run a st = y # ys"
      by (cases "run a st") auto
    moreover from alwaysD [OF b] have "run b y \<noteq> []" .
    ultimately show ?thesis by simp
  qed
  then show ?thesis unfolding always_def by blast
qed

lemma first_Cat: "always a \<Longrightarrow> always b \<Longrightarrow> first (Cat a b) st = first b (first a st)"
  unfolding first_def by (simp add: hd_concat_map alwaysD)

lemma always_unitGroup: "\<not> isDigit c \<Longrightarrow> always (unitGroup i nm c)"
  unfolding always_def using run_unitGroup_nonempty by blast

lemma first_unitGroup: "\<not> isDigit c \<Longrightarrow> first (unitGroup i nm c) st = scanUnit i c st"
  unfolding first_def by (rule hd_run_unitGroup)

lemma letters_not_digits:
  "\<not> isDigit CHR ''Y''" "\<not> isDigit CHR ''M''" "\<not> isDigit CHR ''W''" "\<not> isDigit CHR ''D''"
  "\<not> isDigit CHR ''H''" "\<not> isDigit CHR ''S''" "\<not> isDigit CHR ''T''" "\<not> isDigit CHR ''P''"
  by (simp_all add: isDigit_def)

lemma always_Quest: "always (Quest a)"
proof -
  have "run (Quest a) st \<noteq> []" for st by simp
  then show ?thesis unfolding always_def by blast
qed

lemma always_timePart: "always timePart"
  unfolding timePart_def by (rule always_Quest)

lemma first_timePart: "first timePart st = scanTime st"
proof (cases st)
  case (Pair s k)
  let ?body = "Cat (unitGroup 10 ''hour'' CHR ''H'')
       (Cat (unitGroup 12 ''minute'' CHR ''M'') (unitGroup 14 ''second'' CHR ''S''))"
  have al: "always ?body"
    by (intro always_Cat always_unitGroup letters_not_digits)
  have fi: "first ?body st' = scanUnit 14 CHR ''S'' (scanUnit 12 CHR ''M'' (scanUnit 10 CHR ''H'' st'))" for st'
    by (simp add: first_Cat always_Cat always_unitGroup first_unitGroup letters_not_digits)
  have T: "run (Cat (Lit CHR ''T'') ?body) (s, k) =
           (case s of [] \<Rightarrow> [] | x # s1 \<Rightarrow> if x = CHR ''T'' then run ?body (s1, k) else [])"
    by (cases s) (simp_all del: run.simps(4,5,6) add: run.simps(5) [of "Lit CHR ''T''"])
  have Q: "run timePart (s, k) =
           map (\<lambda>(s', k'). (s', k'(9 \<mapsto> take (length s - length s') s)))
             (run (Cat (Lit CHR ''T'') ?body) (s, k)) @ [(s, k)]"
    unfolding timePart_def by (simp del: run.simps add: run.simps(4) run.simps(6) [of 9])
  show ?thesis
  proof (cases s)
    case Nil
    then show ?thesis
      unfolding first_def Pair Q T by (simp add: scanTime_def)
  next
    case (Cons x s1)
    show ?thesis
    proof (cases "x = CHR ''T''")
      case False
      then show ?thesis
        unfolding first_def Pair Q T by (simp add: scanTime_def Cons)
    next
      case True
      have ne: "run ?body (s1, k) \<noteq> []" by (rule alwaysD [OF al])
      have "hd (run ?body (s1, k)) = scanUnit 14 CHR ''S'' (scanUnit 12 CHR ''M'' (scanUnit 10 CHR ''H'' (s1, k)))"
        using fi [of "(s1, k)"] unfolding first_def .
      then show ?thesis
        unfolding first_def Pair Q T
        using ne True by (simp add: scanTime_def Cons hd_map case_prod_unfold del: run.simps)
    qed
  qed
qed

lemma always_afterP: "always afterP"
  unfolding afterP_def
  by (intro always_Cat always_unitGroup letters_not_digits always_timePart)

lemma first_afterP: "first afterP (s0, Map.empty) = scanAfterP s0"
  unfolding afterP_def scanAfterP_def
  by (simp add: first_Cat always_Cat always_unitGroup first_unitGroup letters_not_digits
      always_timePart first_timePart)

lemma run_full:
  "run full (s, k) = (case s of [] \<Rightarrow> [] | x # s0 \<Rightarrow> if x = CHR ''P'' then run afterP (s0, k) else [])"
  unfolding full_afterP by (cases s) (simp_all del: run.simps(4,5,6) add: run.simps(5) [of "Lit CHR ''P''"])


definition notP :: "char \<Rightarrow> bool" where
  "notP c = (c \<noteq> CHR ''P'')"

lemma first_full:
  "run full (CHR ''P'' # s0, Map.empty) \<noteq> [] \<and>
   hd (run full (CHR ''P'' # s0, Map.empty)) = scanAfterP s0"
  using alwaysD [OF always_afterP, of "(s0, Map.empty)"] first_afterP [of s0]
  unfolding run_full first_def by simp

lemma leftmost_full:
  "leftmost full s i =
     (case dropWhile notP s of
        [] \<Rightarrow> None
      | x # s0 \<Rightarrow>
          Some (i + length (takeWhile notP s),
                take (Suc (length s0) - length (fst (scanAfterP s0))) (CHR ''P'' # s0),
                snd (scanAfterP s0)))"
proof (induction s arbitrary: i)
  case Nil
  show ?case by (subst leftmost.simps) (simp add: run_full)
next
  case (Cons x s)
  show ?case
  proof (cases "x = CHR ''P''")
    case True
    have nP: "\<not> notP CHR ''P''" by (simp add: notP_def)
    obtain s' k where sc: "scanAfterP s = (s', k)" by (cases "scanAfterP s") auto
    from first_full [of s] sc obtain rest
      where r: "run full (CHR ''P'' # s, Map.empty) = (s', k) # rest"
      by (cases "run full (CHR ''P'' # s, Map.empty)") auto
    show ?thesis
      unfolding True by (subst leftmost.simps) (simp add: nP r sc)
  next
    case False
    then have nx: "notP x" by (simp add: notP_def)
    from False have "run full (x # s, Map.empty) = []" by (simp add: run_full)
    then have step: "leftmost full (x # s) i = leftmost full s (Suc i)"
      by (subst leftmost.simps) simp
    have dw: "dropWhile notP (x # s) = dropWhile notP s"
      and tw: "takeWhile notP (x # s) = x # takeWhile notP s"
      using nx by simp_all
    show ?thesis
      unfolding step dw tw Cons.IH by (simp cong: list.case_cong)
  qed
qed

lemma dropWhile_notP_Nil: "(dropWhile notP s = []) = (CHR ''P'' \<notin> set s)"
  by (induction s) (auto simp: notP_def)

lemma MatchString_full: "MatchString full s = (CHR ''P'' \<in> set s)"
proof (cases "dropWhile notP s")
  case Nil
  with dropWhile_notP_Nil [of s] have "CHR ''P'' \<notin> set s" by blast
  then show ?thesis unfolding MatchString_def leftmost_full Nil by simp
next
  case (Cons x s0)
  then have "dropWhile notP s \<noteq> []" by simp
  with dropWhile_notP_Nil [of s] have "CHR ''P'' \<in> set s" by blast
  then show ?thesis unfolding MatchString_def leftmost_full Cons by simp
qed

lemma groupNames_full:
  "groupNames full =
     [(1, []), (2, ''year''), (3, []), (4, ''month''), (5, []), (6, ''week''), (7, []),
      (8, ''day''), (9, []), (10, []), (11, ''hour''), (12, []), (13, ''minute''),
      (14, []), (15, ''second'')]"
  by (simp add: full_def unitGroup_def)


definition fieldValue :: "string \<Rightarrow> int64" where
  "fieldValue p = (if p = [] then 0 else word_of_nat (decimal p))"

definition tooBig :: "string \<Rightarrow> bool" where
  "tooBig p = (maxInt < decimal p)"

definition buildDuration ::
  "string \<Rightarrow> string \<Rightarrow> string \<Rightarrow> string \<Rightarrow> string \<Rightarrow> string \<Rightarrow> string \<Rightarrow> error + Duration" where
  "buildDuration y mo w d h mi sec =
     (if tooBig y then Inl (NumErrorRange y)
      else if tooBig mo then Inl (NumErrorRange mo)
      else if tooBig w then Inl (NumErrorRange w)
      else if tooBig d then Inl (NumErrorRange d)
      else if tooBig h then Inl (NumErrorRange h)
      else if tooBig mi then Inl (NumErrorRange mi)
      else if tooBig sec then Inl (NumErrorRange sec)
      else Inr \<lparr>Years = fieldValue y, Months = fieldValue mo, Weeks = fieldValue w,
                Days = fieldValue d, Hours = fieldValue h, Minutes = fieldValue mi,
                Seconds = fieldValue sec\<rparr>)"

lemma decimal_Nil: "decimal [] = 0"
  by (simp add: decimal_def)

lemma tooBig_Nil: "\<not> tooBig []"
  by (simp add: tooBig_def decimal_Nil)

lemma Atoi_digits:
  assumes "p \<noteq> []" "list_all isDigit p"
  shows "Atoi p = (if tooBig p then Inl (NumErrorRange p) else Inr (fieldValue p))"
proof -
  from assms obtain x xs where p: "p = x # xs" and x: "isDigit x" by (cases p) auto
  from x have "x \<noteq> CHR ''-''" "x \<noteq> CHR ''+''" by (auto simp: isDigit_def)
  then show ?thesis
    using assms by (simp add: Atoi_def p tooBig_def fieldValue_def)
qed

lemma fieldLoop_unnamed:
  "i < length match \<Longrightarrow> fieldLoop ([] # names) match i d = fieldLoop names match (Suc i) d"
  by simp

lemma fieldLoop_named:
  assumes "i < length match" "0 < i" "name \<noteq> []" "list_all isDigit (match ! i)"
  shows "fieldLoop (name # names) match i d =
         (if match ! i = [] then fieldLoop names match (Suc i) d
          else if tooBig (match ! i) then Inl (NumErrorRange (match ! i))
          else (case setField name (fieldValue (match ! i)) d of
                  Inl err \<Rightarrow> Inl err
                | Inr d' \<Rightarrow> fieldLoop names match (Suc i) d'))"
  using assms by (simp add: Atoi_digits Let_def)

lemma fieldLoop_full:
  assumes len: "length m = 16"
    and dig: "list_all isDigit (m ! 2)" "list_all isDigit (m ! 4)" "list_all isDigit (m ! 6)"
      "list_all isDigit (m ! 8)" "list_all isDigit (m ! 11)" "list_all isDigit (m ! 13)"
      "list_all isDigit (m ! 15)"
  shows "fieldLoop (SubexpNames full) m 0 zeroDuration =
         buildDuration (m ! 2) (m ! 4) (m ! 6) (m ! 8) (m ! 11) (m ! 13) (m ! 15)"
proof -
  have names: "SubexpNames full =
      [[], [], ''year'', [], ''month'', [], ''week'', [], ''day'', [], [], ''hour'', [],
       ''minute'', [], ''second'']"
    by (simp add: SubexpNames_def groupNames_full)
  note rules = setField_def tooBig_Nil fieldValue_def fieldLoop_unnamed len
  have s15: "fieldLoop [''second''] m 15 d =
       (if tooBig (m ! 15) then Inl (NumErrorRange (m ! 15))
       else Inr (d\<lparr>Seconds := fieldValue (m ! 15)\<rparr>))"
    if "Seconds d = 0" for d
    using that dig(7)
    by (subst fieldLoop_named) (simp_all add: rules  del: fieldLoop.simps(2))
  have s13: "fieldLoop [''minute'', [], ''second''] m 13 d =
       (if tooBig (m ! 13) then Inl (NumErrorRange (m ! 13))
       else if tooBig (m ! 15) then Inl (NumErrorRange (m ! 15))
       else Inr (d\<lparr>Minutes := fieldValue (m ! 13), Seconds := fieldValue (m ! 15)\<rparr>))"
    if "Minutes d = 0" "Seconds d = 0" for d
    using that dig(6)
    by (subst fieldLoop_named) (simp_all add: rules s15 del: fieldLoop.simps(2))
  have s11: "fieldLoop [''hour'', [], ''minute'', [], ''second''] m 11 d =
       (if tooBig (m ! 11) then Inl (NumErrorRange (m ! 11))
       else if tooBig (m ! 13) then Inl (NumErrorRange (m ! 13))
       else if tooBig (m ! 15) then Inl (NumErrorRange (m ! 15))
       else Inr (d\<lparr>Hours := fieldValue (m ! 11), Minutes := fieldValue (m ! 13), Seconds := fieldValue (m ! 15)\<rparr>))"
    if "Hours d = 0" "Minutes d = 0" "Seconds d = 0" for d
    using that dig(5)
    by (subst fieldLoop_named) (simp_all add: rules s13 del: fieldLoop.simps(2))
  have s8: "fieldLoop [''day'', [], [], ''hour'', [], ''minute'', [], ''second''] m 8 d =
       (if tooBig (m ! 8) then Inl (NumErrorRange (m ! 8))
       else if tooBig (m ! 11) then Inl (NumErrorRange (m ! 11))
       else if tooBig (m ! 13) then Inl (NumErrorRange (m ! 13))
       else if tooBig (m ! 15) then Inl (NumErrorRange (m ! 15))
       else Inr (d\<lparr>Days := fieldValue (m ! 8), Hours := fieldValue (m ! 11), Minutes := fieldValue (m ! 13), Seconds := fieldValue (m ! 15)\<rparr>))"
    if "Days d = 0" "Hours d = 0" "Minutes d = 0" "Seconds d = 0" for d
    using that dig(4)
    by (subst fieldLoop_named) (simp_all add: rules s11 del: fieldLoop.simps(2))
  have s6: "fieldLoop [''week'', [], ''day'', [], [], ''hour'', [], ''minute'', [], ''second''] m 6 d =
       (if tooBig (m ! 6) then Inl (NumErrorRange (m ! 6))
       else if tooBig (m ! 8) then Inl (NumErrorRange (m ! 8))
       else if tooBig (m ! 11) then Inl (NumErrorRange (m ! 11))
       else if tooBig (m ! 13) then Inl (NumErrorRange (m ! 13))
       else if tooBig (m ! 15) then Inl (NumErrorRange (m ! 15))
       else Inr (d\<lparr>Weeks := fieldValue (m ! 6), Days := fieldValue (m ! 8), Hours := fieldValue (m ! 11), Minutes := fieldValue (m ! 13), Seconds := fieldValue (m ! 15)\<rparr>))"
    if "Weeks d = 0" "Days d = 0" "Hours d = 0" "Minutes d = 0" "Seconds d = 0" for d
    using that dig(3)
    by (subst fieldLoop_named) (simp_all add: rules s8 del: fieldLoop.simps(2))
  have s4: "fieldLoop [''month'', [], ''week'', [], ''day'', [], [], ''hour'', [], ''minute'', [], ''second''] m 4 d =
       (if tooBig (m ! 4) then Inl (NumErrorRange (m ! 4))
       else if tooBig (m ! 6) then Inl (NumErrorRange (m ! 6))
       else if tooBig (m ! 8) then Inl (NumErrorRange (m ! 8))
       else if tooBig (m ! 11) then Inl (NumErrorRange (m ! 11))
       else if tooBig (m ! 13) then Inl (NumErrorRange (m ! 13))
       else if tooBig (m ! 15) then Inl (NumErrorRange (m ! 15))
       else Inr (d\<lparr>Months := fieldValue (m ! 4), Weeks := fieldValue (m ! 6), Days := fieldValue (m ! 8), Hours := fieldValue (m ! 11), Minutes := fieldValue (m ! 13), Seconds := fieldValue (m ! 15)\<rparr>))"
    if "Months d = 0" "Weeks d = 0" "Days d = 0" "Hours d = 0" "Minutes d = 0" "Seconds d = 0" for d
    using that dig(2)
    by (subst fieldLoop_named) (simp_all add: rules s6 del: fieldLoop.simps(2))
  have s2: "fieldLoop [''year'', [], ''month'', [], ''week'', [], ''day'', [], [], ''hour'', [], ''minute'', [], ''second''] m 2 zeroDuration =
      buildDuration (m ! 2) (m ! 4) (m ! 6) (m ! 8) (m ! 11) (m ! 13) (m ! 15)"
    using dig(1)
    by (subst fieldLoop_named)
       (simp_all add: rules s4 buildDuration_def zeroDuration_def del: fieldLoop.simps(2))
  have "fieldLoop (SubexpNames full) m 0 zeroDuration =
        fieldLoop [''year'', [], ''month'', [], ''week'', [], ''day'', [], [], ''hour'', [], ''minute'', [], ''second''] m 2 zeroDuration"
    unfolding names using len by (simp add: numeral_2_eq_2)
  then show ?thesis by (simp only: s2)
qed

lemma FindStringSubmatch_full:
  "FindStringSubmatch full s =
     (case dropWhile notP s of
        [] \<Rightarrow> None
      | x # s0 \<Rightarrow>
          Some (take (Suc (length s0) - length (fst (scanAfterP s0))) (CHR ''P'' # s0) #
                map (capText (snd (scanAfterP s0))) [1, 2, 3, 4, 5, 6, 7, 8, 9, 10, 11, 12, 13, 14, 15]))"
proof -
  have "map (\<lambda>g. capText k (fst g)) (groupNames full) =
        map (capText k) [1, 2, 3, 4, 5, 6, 7, 8, 9, 10, 11, 12, 13, 14, 15]" for k
    by (simp add: groupNames_full)
  then show ?thesis
    by (cases "dropWhile notP s")
       (simp_all add: FindStringSubmatch_def leftmost_full del: dropWhile_eq_Nil_conv)
qed


lemma list_all_takeWhile: "list_all P (takeWhile P xs)"
  by (induction xs) auto

lemma unitDigits_digits: "list_all isDigit (unitDigits c s)"
  by (simp add: unitDigits_def list_all_takeWhile)

lemma unitDigits_split:
  "unitDigits c s \<noteq> [] \<Longrightarrow> s = unitDigits c s @ c # drop (Suc (length (unitDigits c s))) s"
proof -
  assume a: "unitDigits c s \<noteq> []"
  then have p: "unitDigits c s = takeWhile isDigit s"
    and d: "dropWhile isDigit s \<noteq> []" and h: "hd (dropWhile isDigit s) = c"
    by (auto simp: unitDigits_def split: if_splits)
  from d h have "dropWhile isDigit s = c # tl (dropWhile isDigit s)"
    by (cases "dropWhile isDigit s") auto
  then have "s = takeWhile isDigit s @ c # tl (dropWhile isDigit s)"
    by (metis takeWhile_dropWhile_id)
  then show ?thesis
    unfolding p tl_dropWhile .
qed

lemma capText_empty: "capText Map.empty j = []"
  by (simp add: capText_def)

lemma scanUnit_step:
  assumes "capText k i = []" "capText k (Suc i) = []"
  obtains p s' k' where "scanUnit i c (s, k) = (s', k')" "s = seg p c @ s'"
    "list_all isDigit p" "capText k' (Suc i) = p" "capText k' i = seg p c"
    "\<And>j. j \<noteq> i \<Longrightarrow> j \<noteq> Suc i \<Longrightarrow> capText k' j = capText k j"
proof (cases "unitDigits c s = []")
  case True
  show ?thesis
  proof (rule that [of s k "[]"])
    show "scanUnit i c (s, k) = (s, k)" using True by (simp add: scanUnit_def)
  qed (simp_all add: seg_def assms)
next
  case False
  let ?p = "unitDigits c s"
  show ?thesis
  proof (rule that [of "drop (Suc (length ?p)) s" "k(Suc i \<mapsto> ?p, i \<mapsto> ?p @ [c])" ?p])
    show "scanUnit i c (s, k) = (drop (Suc (length ?p)) s, k(Suc i \<mapsto> ?p, i \<mapsto> ?p @ [c]))"
      using False by (simp add: scanUnit_def Let_def)
    show "s = seg ?p c @ drop (Suc (length ?p)) s"
      using unitDigits_split [OF False] False by (simp add: seg_def)
    show "list_all isDigit ?p" by (rule unitDigits_digits)
  qed (simp_all add: seg_def capText_def False)
qed


definition timeText :: "string \<Rightarrow> string \<Rightarrow> string \<Rightarrow> string \<Rightarrow> bool" where
  "timeText tp h mi sec =
     ((tp = [] \<and> h = [] \<and> mi = [] \<and> sec = []) \<or>
      tp = CHR ''T'' # seg h CHR ''H'' @ seg mi CHR ''M'' @ seg sec CHR ''S'')"

lemma scanTime_step:
  assumes "\<And>j. 9 \<le> j \<Longrightarrow> capText k j = []"
  obtains tp h mi sec s' k' where "scanTime (s, k) = (s', k')" "s = tp @ s'"
    "list_all isDigit h" "list_all isDigit mi" "list_all isDigit sec"
    "capText k' 9 = tp" "capText k' 11 = h" "capText k' 13 = mi" "capText k' 15 = sec"
    "timeText tp h mi sec"
    "\<And>j. j < 9 \<Longrightarrow> capText k' j = capText k j"
proof (cases "s \<noteq> [] \<and> hd s = CHR ''T''")
  case False
  show ?thesis
  proof (rule that [of s k "[]" "[]" "[]" "[]"])
    show "scanTime (s, k) = (s, k)"
      using False by (cases s) (auto simp: scanTime_def)
  qed (simp_all add: assms timeText_def)
next
  case True
  then obtain s1 where s: "s = CHR ''T'' # s1" by (cases s) auto
  obtain h s2 k2 where 2: "scanUnit 10 CHR ''H'' (s1, k) = (s2, k2)" "s1 = seg h CHR ''H'' @ s2"
    "list_all isDigit h" "capText k2 11 = h"
    "\<And>j. j \<noteq> 10 \<Longrightarrow> j \<noteq> 11 \<Longrightarrow> capText k2 j = capText k j"
    by (rule scanUnit_step [of k 10 "CHR ''H''" s1]) (simp_all add: assms)
  obtain mi s3 k3 where 3: "scanUnit 12 CHR ''M'' (s2, k2) = (s3, k3)" "s2 = seg mi CHR ''M'' @ s3"
    "list_all isDigit mi" "capText k3 13 = mi"
    "\<And>j. j \<noteq> 12 \<Longrightarrow> j \<noteq> 13 \<Longrightarrow> capText k3 j = capText k2 j"
    by (rule scanUnit_step [of k2 12 "CHR ''M''" s2]) (simp_all add: assms 2(5))
  obtain sec s4 k4 where 4: "scanUnit 14 CHR ''S'' (s3, k3) = (s4, k4)" "s3 = seg sec CHR ''S'' @ s4"
    "list_all isDigit sec" "capText k4 15 = sec"
    "\<And>j. j \<noteq> 14 \<Longrightarrow> j \<noteq> 15 \<Longrightarrow> capText k4 j = capText k3 j"
    by (rule scanUnit_step [of k3 14 "CHR ''S''" s3]) (simp_all add: assms 2(5) 3(5))
  let ?tp = "CHR ''T'' # seg h CHR ''H'' @ seg mi CHR ''M'' @ seg sec CHR ''S''"
  have whole: "s = ?tp @ s4" by (simp add: s 2(2) 3(2) 4(2))
  have tk: "take (length s - length s4) s = ?tp" by (simp add: whole)
  show ?thesis
  proof (rule that [of s4 "k4(9 \<mapsto> ?tp)" ?tp h mi sec])
    show "scanTime (s, k) = (s4, k4(9 \<mapsto> ?tp))"
      unfolding scanTime_def using tk by (simp add: s 2(1) 3(1) 4(1))
    show "s = ?tp @ s4" by (rule whole)
    show "capText (k4(9 \<mapsto> ?tp)) 9 = ?tp" by (simp add: capText_def)
    show "capText (k4(9 \<mapsto> ?tp)) 11 = h"
      using 2(4) 3(5) [of 11] 4(5) [of 11] by (simp add: capText_def)
    show "capText (k4(9 \<mapsto> ?tp)) 13 = mi"
      using 3(4) 4(5) [of 13] by (simp add: capText_def)
    show "capText (k4(9 \<mapsto> ?tp)) 15 = sec"
      using 4(4) by (simp add: capText_def)
    show "timeText ?tp h mi sec" by (simp add: timeText_def)
    show "capText (k4(9 \<mapsto> ?tp)) j = capText k j" if "j < 9" for j
      using that 2(5) [of j] 3(5) [of j] 4(5) [of j] by (simp add: capText_def)
  qed (rule 2(3) 3(3) 4(3))+
qed

lemma scanAfterP_structure:
  obtains y mo w d tp h mi sec rest k where
    "scanAfterP s0 = (rest, k)"
    "s0 = seg y CHR ''Y'' @ seg mo CHR ''M'' @ seg w CHR ''W'' @ seg d CHR ''D'' @ tp @ rest"
    "list_all isDigit y" "list_all isDigit mo" "list_all isDigit w" "list_all isDigit d"
    "list_all isDigit h" "list_all isDigit mi" "list_all isDigit sec"
    "capText k 2 = y" "capText k 4 = mo" "capText k 6 = w" "capText k 8 = d"
    "capText k 9 = tp" "capText k 11 = h" "capText k 13 = mi" "capText k 15 = sec"
    "timeText tp h mi sec"
proof -
  obtain y s1 k1 where 1: "scanUnit 1 CHR ''Y'' (s0, Map.empty) = (s1, k1)" "s0 = seg y CHR ''Y'' @ s1"
    "list_all isDigit y" "capText k1 2 = y"
    "\<And>j. j \<noteq> 1 \<Longrightarrow> j \<noteq> 2 \<Longrightarrow> capText k1 j = []"
    by (rule scanUnit_step [of Map.empty 1 "CHR ''Y''" s0]) (simp_all add: capText_empty numeral_2_eq_2)
  obtain mo s2 k2 where 2: "scanUnit 3 CHR ''M'' (s1, k1) = (s2, k2)" "s1 = seg mo CHR ''M'' @ s2"
    "list_all isDigit mo" "capText k2 4 = mo"
    "\<And>j. j \<noteq> 3 \<Longrightarrow> j \<noteq> 4 \<Longrightarrow> capText k2 j = capText k1 j"
    by (rule scanUnit_step [of k1 3 "CHR ''M''" s1]) (simp_all add: 1(5))
  obtain w s3 k3 where 3: "scanUnit 5 CHR ''W'' (s2, k2) = (s3, k3)" "s2 = seg w CHR ''W'' @ s3"
    "list_all isDigit w" "capText k3 6 = w"
    "\<And>j. j \<noteq> 5 \<Longrightarrow> j \<noteq> 6 \<Longrightarrow> capText k3 j = capText k2 j"
    by (rule scanUnit_step [of k2 5 "CHR ''W''" s2]) (simp_all add: 1(5) 2(5))
  obtain d s4 k4 where 4: "scanUnit 7 CHR ''D'' (s3, k3) = (s4, k4)" "s3 = seg d CHR ''D'' @ s4"
    "list_all isDigit d" "capText k4 8 = d"
    "\<And>j. j \<noteq> 7 \<Longrightarrow> j \<noteq> 8 \<Longrightarrow> capText k4 j = capText k3 j"
    by (rule scanUnit_step [of k3 7 "CHR ''D''" s3]) (simp_all add: 1(5) 2(5) 3(5))
  have hi: "capText k4 j = []" if "9 \<le> j" for j
    using that by (simp add: 1(5) 2(5) 3(5) 4(5))
  obtain tp h mi sec rest k where 5: "scanTime (s4, k4) = (rest, k)" "s4 = tp @ rest"
    "list_all isDigit h" "list_all isDigit mi" "list_all isDigit sec"
    "capText k 9 = tp" "capText k 11 = h" "capText k 13 = mi" "capText k 15 = sec"
    "timeText tp h mi sec"
    "\<And>j. j < 9 \<Longrightarrow> capText k j = capText k4 j"
    by (rule scanTime_step [of k4 s4]) (simp_all add: hi)
  show ?thesis
  proof (rule that [of rest k y mo w d tp h mi sec])
    show "scanAfterP s0 = (rest, k)"
      by (simp only: scanAfterP_def 1(1) 2(1) 3(1) 4(1) 5(1))
    show "s0 = seg y CHR ''Y'' @ seg mo CHR ''M'' @ seg w CHR ''W'' @ seg d CHR ''D'' @ tp @ rest"
      by (simp add: 1(2) 2(2) 3(2) 4(2) 5(2))
    show "capText k 2 = y" using 1(4) by (simp add: 5(11) 4(5) 3(5) 2(5))
    show "capText k 4 = mo" using 2(4) by (simp add: 5(11) 4(5) 3(5))
    show "capText k 6 = w" using 3(4) by (simp add: 5(11) 4(5))
    show "capText k 8 = d" using 4(4) by (simp add: 5(11))
  qed (rule 1(3) 2(3) 3(3) 4(3) 5(3-10))+
qed


lemma hd_dropWhile_notP: "dropWhile notP s = x # s0 \<Longrightarrow> x = CHR ''P''"
  using hd_dropWhile [of notP s] by (auto simp: notP_def)

lemma takeWhile_notP: "CHR ''P'' \<notin> set (takeWhile notP s)"
  by (induction s) (auto simp: notP_def)

lemma submatch_structure:
  assumes "FindStringSubmatch full s = Some m"
  shows "length m = 16"
    and "list_all isDigit (m ! 2)" and "list_all isDigit (m ! 4)" and "list_all isDigit (m ! 6)"
    and "list_all isDigit (m ! 8)" and "list_all isDigit (m ! 11)" and "list_all isDigit (m ! 13)"
    and "list_all isDigit (m ! 15)"
    and "m ! 0 = CHR ''P'' # seg (m ! 2) CHR ''Y'' @ seg (m ! 4) CHR ''M'' @ seg (m ! 6) CHR ''W'' @
                seg (m ! 8) CHR ''D'' @ m ! 9"
    and "timeText (m ! 9) (m ! 11) (m ! 13) (m ! 15)"
    and "\<exists>post. s = takeWhile notP s @ m ! 0 @ post"
proof -
  from assms obtain x s0 where dw: "dropWhile notP s = x # s0"
    unfolding FindStringSubmatch_full by (cases "dropWhile notP s") auto
  then have x: "x = CHR ''P''" by (rule hd_dropWhile_notP)
  obtain y mo w d tp h mi sec rest k where sc:
    "scanAfterP s0 = (rest, k)"
    "s0 = seg y CHR ''Y'' @ seg mo CHR ''M'' @ seg w CHR ''W'' @ seg d CHR ''D'' @ tp @ rest"
    "list_all isDigit y" "list_all isDigit mo" "list_all isDigit w" "list_all isDigit d"
    "list_all isDigit h" "list_all isDigit mi" "list_all isDigit sec"
    "capText k 2 = y" "capText k 4 = mo" "capText k 6 = w" "capText k 8 = d"
    "capText k 9 = tp" "capText k 11 = h" "capText k 13 = mi" "capText k 15 = sec"
    "timeText tp h mi sec"
    by (rule scanAfterP_structure [of s0])
  let ?A = "seg y CHR ''Y'' @ seg mo CHR ''M'' @ seg w CHR ''W'' @ seg d CHR ''D'' @ tp"
  have tk: "take (Suc (length s0) - length rest) (CHR ''P'' # s0) = CHR ''P'' # ?A"
    by (simp add: sc(2))
  have m: "m = (CHR ''P'' # ?A) #
               map (capText k) [1, 2, 3, 4, 5, 6, 7, 8, 9, 10, 11, 12, 13, 14, 15]"
    using assms unfolding FindStringSubmatch_full dw by (simp add: sc(1) tk)
  have s: "s = takeWhile notP s @ CHR ''P'' # s0"
    using takeWhile_dropWhile_id [of notP s] unfolding dw x by simp
  have "s = takeWhile notP s @ (CHR ''P'' # ?A) @ rest"
    by (subst s) (simp add: sc(2))
  then have post: "\<exists>post. s = takeWhile notP s @ m ! 0 @ post"
    unfolding m by (intro exI [of _ rest]) simp
  show "length m = 16"
    and "list_all isDigit (m ! 2)" and "list_all isDigit (m ! 4)" and "list_all isDigit (m ! 6)"
    and "list_all isDigit (m ! 8)" and "list_all isDigit (m ! 11)" and "list_all isDigit (m ! 13)"
    and "list_all isDigit (m ! 15)"
    and "m ! 0 = CHR ''P'' # seg (m ! 2) CHR ''Y'' @ seg (m ! 4) CHR ''M'' @ seg (m ! 6) CHR ''W'' @
                seg (m ! 8) CHR ''D'' @ m ! 9"
    and "timeText (m ! 9) (m ! 11) (m ! 13) (m ! 15)"
    using sc(3-9) sc(18) unfolding m by (simp_all add: sc(10-17))
  show "\<exists>post. s = takeWhile notP s @ m ! 0 @ post" by (rule post)
qed

lemma FindStringSubmatch_Some_iff:
  "(\<exists>m. FindStringSubmatch full s = Some m) = (CHR ''P'' \<in> set s)"
  using dropWhile_notP_Nil [of s] unfolding FindStringSubmatch_full
  by (cases "dropWhile notP s") (simp_all del: dropWhile_eq_Nil_conv)

lemma FromString_matched:
  assumes "FindStringSubmatch full s = Some m"
  shows "FromString s = buildDuration (m ! 2) (m ! 4) (m ! 6) (m ! 8) (m ! 11) (m ! 13) (m ! 15)"
proof -
  from assms have "CHR ''P'' \<in> set s" using FindStringSubmatch_Some_iff [of s] by blast
  then have "MatchString full s" by (simp add: MatchString_full)
  then have "FromString s = fieldLoop (SubexpNames full) m 0 zeroDuration"
    by (simp add: FromString_def assms)
  also have "\<dots> = buildDuration (m ! 2) (m ! 4) (m ! 6) (m ! 8) (m ! 11) (m ! 13) (m ! 15)"
    using submatch_structure [OF assms] by (intro fieldLoop_full) simp_all
  finally show ?thesis .
qed

lemma FromString_unmatched: "CHR ''P'' \<notin> set s \<Longrightarrow> FromString s = Inl ErrBadFormat"
  by (simp add: FromString_def MatchString_full)

subsection \<open>Text in canonical form\<close>

text \<open>
  A text \<open>P\<close>, digit runs with their unit letters in the order of the grammar, and an
  optional time part is scanned back into exactly those digit runs.
\<close>


definition nextLetter :: "string \<Rightarrow> char option" where
  "nextLetter X = (case dropWhile isDigit X of [] \<Rightarrow> None | c # _ \<Rightarrow> Some c)"

lemma nextLetter_Nil: "nextLetter [] = None"
  by (simp add: nextLetter_def)

lemma nextLetter_Cons: "\<not> isDigit c \<Longrightarrow> nextLetter (c # X) = Some c"
  by (simp add: nextLetter_def)

lemma dropWhile_digits: "list_all isDigit p \<Longrightarrow> dropWhile isDigit (p @ X) = dropWhile isDigit X"
  by (induction p) auto

lemma takeWhile_digits:
  "list_all isDigit p \<Longrightarrow> takeWhile isDigit (p @ X) = p @ takeWhile isDigit X"
  by (induction p) auto

lemma nextLetter_seg:
  "list_all isDigit p \<Longrightarrow> \<not> isDigit c \<Longrightarrow>
   nextLetter (seg p c @ X) = (if p = [] then nextLetter X else Some c)"
  by (simp add: nextLetter_def seg_def dropWhile_digits)

lemma unitDigits_blocked: "nextLetter X \<noteq> Some c \<Longrightarrow> unitDigits c X = []"
  by (cases "dropWhile isDigit X") (auto simp: unitDigits_def nextLetter_def)

lemma unitDigits_seg:
  "list_all isDigit p \<Longrightarrow> p \<noteq> [] \<Longrightarrow> \<not> isDigit c \<Longrightarrow> unitDigits c (p @ c # X) = p"
  by (simp add: unitDigits_def takeWhile_digits dropWhile_digits)

lemma scanUnit_seg:
  assumes "list_all isDigit p" "\<not> isDigit c" "p = [] \<longrightarrow> nextLetter X \<noteq> Some c"
  shows "scanUnit i c (seg p c @ X, k) =
         (X, if p = [] then k else k(Suc i \<mapsto> p, i \<mapsto> p @ [c]))"
proof (cases "p = []")
  case True
  with assms show ?thesis
    by (simp add: scanUnit_def seg_def unitDigits_blocked)
next
  case False
  with assms show ?thesis
    by (simp add: scanUnit_def seg_def unitDigits_seg)
qed


lemma capText_upd: "capText (k(a \<mapsto> v)) j = (if j = a then v else capText k j)"
  by (simp add: capText_def)

lemma capText_if: "capText (if b then k else k') j = (if b then capText k j else capText k' j)"
  by simp

lemma if_Nil_self: "(if p = [] then [] else p) = p"
  by simp

lemma scanTime_canonical:
  assumes "list_all isDigit h" "list_all isDigit mi" "list_all isDigit sec"
    and "timeText tp h mi sec"
    and "capText k 9 = []" "capText k 11 = []" "capText k 13 = []" "capText k 15 = []"
  shows "\<exists>k'. scanTime (tp, k) = ([], k') \<and> capText k' 9 = tp \<and> capText k' 11 = h \<and>
           capText k' 13 = mi \<and> capText k' 15 = sec \<and> (\<forall>j<9. capText k' j = capText k j)"
proof (cases "tp = []")
  case True
  with assms(4) have "h = []" "mi = []" "sec = []" by (auto simp: timeText_def)
  with True assms(5-8) show ?thesis by (simp add: scanTime_def)
next
  case False
  with assms(4) have tp: "tp = CHR ''T'' # seg h CHR ''H'' @ seg mi CHR ''M'' @ seg sec CHR ''S''"
    by (auto simp: timeText_def)
  have n1: "h = [] \<longrightarrow> nextLetter (seg mi CHR ''M'' @ seg sec CHR ''S'') \<noteq> Some CHR ''H''"
    using nextLetter_seg [OF assms(2) letters_not_digits(2), of "seg sec CHR ''S''"]
      nextLetter_seg [OF assms(3) letters_not_digits(6), of "[]"]
    by (simp add: nextLetter_Nil)
  have n2: "mi = [] \<longrightarrow> nextLetter (seg sec CHR ''S'') \<noteq> Some CHR ''M''"
    using nextLetter_seg [OF assms(3) letters_not_digits(6), of "[]"]
    by (simp add: nextLetter_Nil)
  have n3: "sec = [] \<longrightarrow> nextLetter [] \<noteq> Some CHR ''S''"
    by (simp add: nextLetter_Nil)
  have 1: "scanUnit 10 CHR ''H'' (seg h CHR ''H'' @ seg mi CHR ''M'' @ seg sec CHR ''S'', k) =
           (seg mi CHR ''M'' @ seg sec CHR ''S'',
            if h = [] then k else k(Suc 10 \<mapsto> h, 10 \<mapsto> h @ [CHR ''H'']))"
    by (rule scanUnit_seg [OF assms(1) letters_not_digits(5) n1])
  have 2: "scanUnit 12 CHR ''M'' (seg mi CHR ''M'' @ seg sec CHR ''S'', k2) =
           (seg sec CHR ''S'', if mi = [] then k2 else k2(Suc 12 \<mapsto> mi, 12 \<mapsto> mi @ [CHR ''M'']))" for k2
    by (rule scanUnit_seg [OF assms(2) letters_not_digits(2) n2])
  have 3: "scanUnit 14 CHR ''S'' (seg sec CHR ''S'', k3) =
           ([], if sec = [] then k3 else k3(Suc 14 \<mapsto> sec, 14 \<mapsto> sec @ [CHR ''S'']))" for k3
    using scanUnit_seg [OF assms(3) letters_not_digits(6) n3, of 14 k3] by simp
  show ?thesis
    unfolding scanTime_def tp
    by (simp add: 1 2 3 capText_upd assms(5-8) if_Nil_self split del: if_split cong: if_cong)
       (auto simp: capText_upd assms(5-8))
qed


lemma nextLetter_timeText:
  "timeText tp h mi sec \<Longrightarrow> nextLetter tp = None \<or> nextLetter tp = Some CHR ''T''"
  by (auto simp: timeText_def nextLetter_Nil nextLetter_Cons letters_not_digits)

definition canonical ::
  "string \<Rightarrow> string \<Rightarrow> string \<Rightarrow> string \<Rightarrow> string \<Rightarrow> string" where
  "canonical y mo w d tp =
     seg y CHR ''Y'' @ seg mo CHR ''M'' @ seg w CHR ''W'' @ seg d CHR ''D'' @ tp"

lemma scanAfterP_canonical:
  assumes "list_all isDigit y" "list_all isDigit mo" "list_all isDigit w" "list_all isDigit d"
    "list_all isDigit h" "list_all isDigit mi" "list_all isDigit sec"
    and tt: "timeText tp h mi sec"
  shows "\<exists>k. scanAfterP (canonical y mo w d tp) = ([], k) \<and>
           capText k 2 = y \<and> capText k 4 = mo \<and> capText k 6 = w \<and> capText k 8 = d \<and>
           capText k 9 = tp \<and> capText k 11 = h \<and> capText k 13 = mi \<and> capText k 15 = sec"
proof -
  note nd = letters_not_digits
  from nextLetter_timeText [OF tt]
  have t: "nextLetter tp \<noteq> Some CHR ''Y''" "nextLetter tp \<noteq> Some CHR ''M''"
    "nextLetter tp \<noteq> Some CHR ''W''" "nextLetter tp \<noteq> Some CHR ''D''"
    by auto
  have n4: "d = [] \<longrightarrow> nextLetter tp \<noteq> Some CHR ''D''" using t by simp
  have n3: "w = [] \<longrightarrow> nextLetter (seg d CHR ''D'' @ tp) \<noteq> Some CHR ''W''"
    using t by (simp add: nextLetter_seg assms nd)
  have n2: "mo = [] \<longrightarrow> nextLetter (seg w CHR ''W'' @ seg d CHR ''D'' @ tp) \<noteq> Some CHR ''M''"
    using t by (simp add: nextLetter_seg assms nd)
  have n1: "y = [] \<longrightarrow>
      nextLetter (seg mo CHR ''M'' @ seg w CHR ''W'' @ seg d CHR ''D'' @ tp) \<noteq> Some CHR ''Y''"
    using t by (simp add: nextLetter_seg assms nd)
  define k1 where "k1 = (if y = [] then Map.empty else [Suc 1 \<mapsto> y, 1 \<mapsto> y @ [CHR ''Y'']])"
  define k2 where "k2 = (if mo = [] then k1 else k1(Suc 3 \<mapsto> mo, 3 \<mapsto> mo @ [CHR ''M'']))"
  define k3 where "k3 = (if w = [] then k2 else k2(Suc 5 \<mapsto> w, 5 \<mapsto> w @ [CHR ''W'']))"
  define k4 where "k4 = (if d = [] then k3 else k3(Suc 7 \<mapsto> d, 7 \<mapsto> d @ [CHR ''D'']))"
  have 1: "scanUnit 1 CHR ''Y'' (canonical y mo w d tp, Map.empty) =
           (seg mo CHR ''M'' @ seg w CHR ''W'' @ seg d CHR ''D'' @ tp, k1)"
    unfolding canonical_def k1_def by (rule scanUnit_seg [OF assms(1) nd(1) n1])
  have 2: "scanUnit 3 CHR ''M'' (seg mo CHR ''M'' @ seg w CHR ''W'' @ seg d CHR ''D'' @ tp, k1) =
           (seg w CHR ''W'' @ seg d CHR ''D'' @ tp, k2)"
    unfolding k2_def by (rule scanUnit_seg [OF assms(2) nd(2) n2])
  have 3: "scanUnit 5 CHR ''W'' (seg w CHR ''W'' @ seg d CHR ''D'' @ tp, k2) =
           (seg d CHR ''D'' @ tp, k3)"
    unfolding k3_def by (rule scanUnit_seg [OF assms(3) nd(3) n3])
  have 4: "scanUnit 7 CHR ''D'' (seg d CHR ''D'' @ tp, k3) = (tp, k4)"
    unfolding k4_def by (rule scanUnit_seg [OF assms(4) nd(4) n4])
  have c1: "capText k1 2 = y" "\<And>j. 2 < j \<Longrightarrow> capText k1 j = []"
    by (auto simp: k1_def capText_def)
  have c2: "capText k2 2 = y" "capText k2 4 = mo" "\<And>j. 4 < j \<Longrightarrow> capText k2 j = []"
    using c1 by (auto simp: k2_def capText_upd)
  have c3: "capText k3 2 = y" "capText k3 4 = mo" "capText k3 6 = w"
    "\<And>j. 6 < j \<Longrightarrow> capText k3 j = []"
    using c2 by (auto simp: k3_def capText_upd)
  have c4: "capText k4 2 = y" "capText k4 4 = mo" "capText k4 6 = w" "capText k4 8 = d"
    "\<And>j. 8 < j \<Longrightarrow> capText k4 j = []"
    using c3 by (auto simp: k4_def capText_upd)
  from scanTime_canonical [OF assms(5-7) tt, of k4] c4(5)
  obtain k where k: "scanTime (tp, k4) = ([], k)" "capText k 9 = tp" "capText k 11 = h"
    "capText k 13 = mi" "capText k 15 = sec" "\<forall>j<9. capText k j = capText k4 j"
    by auto
  have "scanAfterP (canonical y mo w d tp) = ([], k)"
    by (simp only: scanAfterP_def 1 2 3 4 k(1))
  then show ?thesis
    using k c4 by auto
qed

lemma FindStringSubmatch_canonical:
  assumes "list_all isDigit y" "list_all isDigit mo" "list_all isDigit w" "list_all isDigit d"
    "list_all isDigit h" "list_all isDigit mi" "list_all isDigit sec"
    and tt: "timeText tp h mi sec"
  shows "\<exists>m. FindStringSubmatch full (CHR ''P'' # canonical y mo w d tp) = Some m \<and>
           m ! 0 = CHR ''P'' # canonical y mo w d tp \<and>
           m ! 2 = y \<and> m ! 4 = mo \<and> m ! 6 = w \<and> m ! 8 = d \<and>
           m ! 9 = tp \<and> m ! 11 = h \<and> m ! 13 = mi \<and> m ! 15 = sec"
proof -
  from scanAfterP_canonical [OF assms]
  obtain k where k: "scanAfterP (canonical y mo w d tp) = ([], k)"
    "capText k 2 = y" "capText k 4 = mo" "capText k 6 = w" "capText k 8 = d"
    "capText k 9 = tp" "capText k 11 = h" "capText k 13 = mi" "capText k 15 = sec"
    by auto
  have nP: "\<not> notP CHR ''P''" by (simp add: notP_def)
  show ?thesis
    unfolding FindStringSubmatch_full by (simp add: nP k)
qed

lemma FromString_canonical:
  assumes "list_all isDigit y" "list_all isDigit mo" "list_all isDigit w" "list_all isDigit d"
    "list_all isDigit h" "list_all isDigit mi" "list_all isDigit sec"
    and tt: "timeText tp h mi sec"
  shows "FromString (CHR ''P'' # canonical y mo w d tp) = buildDuration y mo w d h mi sec"
proof -
  from FindStringSubmatch_canonical [OF assms]
  obtain m where m: "FindStringSubmatch full (CHR ''P'' # canonical y mo w d tp) = Some m"
    "m ! 2 = y" "m ! 4 = mo" "m ! 6 = w" "m ! 8 = d" "m ! 11 = h" "m ! 13 = mi" "m ! 15 = sec"
    by auto
  show ?thesis
    using FromString_matched [OF m(1)] by (simp only: m)
qed

lemma FromString_of_match:
  assumes "FindStringSubmatch full s = Some m"
  shows "FromString (m ! 0) = FromString s"
proof -
  note st = submatch_structure [OF assms]
  have "m ! 0 = CHR ''P'' # canonical (m ! 2) (m ! 4) (m ! 6) (m ! 8) (m ! 9)"
    using st by (simp add: canonical_def)
  moreover have "FromString (CHR ''P'' # canonical (m ! 2) (m ! 4) (m ! 6) (m ! 8) (m ! 9)) =
      buildDuration (m ! 2) (m ! 4) (m ! 6) (m ! 8) (m ! 11) (m ! 13) (m ! 15)"
    using st by (intro FromString_canonical) simp_all
  ultimately show ?thesis
    using FromString_matched [OF assms] by simp
qed

section \<open>Properties of the parser\<close>



lemmas scan_eval = FindStringSubmatch_full notP_def scanAfterP_def scanUnit_def scanTime_def
  unitDigits_def isDigit_def capText_def

lemmas build_eval = buildDuration_def tooBig_def fieldValue_def decimal_def digitVal_def maxInt_def

lemma submatch_full_example:
  "FindStringSubmatch full ''P1Y2M3W4DT3H4M5S'' =
     Some [''P1Y2M3W4DT3H4M5S'', ''1Y'', ''1'', ''2M'', ''2'', ''3W'', ''3'', ''4D'', ''4'',
           ''T3H4M5S'', ''3H'', ''3'', ''4M'', ''4'', ''5S'', ''5'']"
  by (simp add: scan_eval)

lemma submatch_week_example:
  "FindStringSubmatch full ''P1W'' =
     Some [''P1W'', [], [], [], [], ''1W'', ''1'', [], [], [], [], [], [], [], [], []]"
  by (simp add: scan_eval)

lemma FromString_full_example:
  "FromString ''P1Y2M3W4DT3H4M5S'' =
     Inr \<lparr>Years = 1, Months = 2, Weeks = 3, Days = 4, Hours = 3, Minutes = 4, Seconds = 5\<rparr>"
  by (simp add: FromString_matched [OF submatch_full_example] build_eval)

lemma FromString_week_example:
  "FromString ''P1W'' =
     Inr \<lparr>Years = 0, Months = 0, Weeks = 1, Days = 0, Hours = 0, Minutes = 0, Seconds = 0\<rparr>"
  by (simp add: FromString_matched [OF submatch_week_example] build_eval)

lemma submatch_offset_example:
  "FindStringSubmatch full ''xP1Y'' =
     Some [''P1Y'', ''1Y'', ''1'', [], [], [], [], [], [], [], [], [], [], [], [], []]"
  by (simp add: scan_eval)

lemma FromString_offset_example:
  "FromString ''xP1Y'' =
     Inr \<lparr>Years = 1, Months = 0, Weeks = 0, Days = 0, Hours = 0, Minutes = 0, Seconds = 0\<rparr>"
  by (simp add: FromString_matched [OF submatch_offset_example] build_eval)

lemma leftmost_offset_example:
  "map_option fst (leftmost full ''xP1Y'' 0) = Some 1"
  by (simp add: leftmost_full notP_def)

lemma submatch_overflow_example:
  "FindStringSubmatch full ''P9223372036854775808Y'' =
     Some [''P9223372036854775808Y'', ''9223372036854775808Y'', ''9223372036854775808'',
           [], [], [], [], [], [], [], [], [], [], [], [], []]"
  by (simp add: scan_eval)

lemma FromString_overflow_example:
  "FromString ''P9223372036854775808Y'' = Inl (NumErrorRange ''9223372036854775808'')"
  by (simp add: FromString_matched [OF submatch_overflow_example] build_eval)


lemma FromString_bad_example: "FromString ''asdf'' = Inl ErrBadFormat"
  by (simp add: FromString_unmatched)

lemma buildDuration_cases:
  "(\<exists>r. buildDuration y mo w d h mi sec = Inr r) \<or>
   (\<exists>p. buildDuration y mo w d h mi sec = Inl (NumErrorRange p))"
  by (simp add: buildDuration_def)

lemma buildDuration_Inr:
  "buildDuration y mo w d h mi sec = Inr r \<Longrightarrow>
   r = \<lparr>Years = fieldValue y, Months = fieldValue mo, Weeks = fieldValue w, Days = fieldValue d,
        Hours = fieldValue h, Minutes = fieldValue mi, Seconds = fieldValue sec\<rparr>"
  by (simp add: buildDuration_def split: if_splits)

lemma buildDuration_ok:
  "\<not> tooBig y \<Longrightarrow> \<not> tooBig mo \<Longrightarrow> \<not> tooBig w \<Longrightarrow> \<not> tooBig d \<Longrightarrow>
   \<not> tooBig h \<Longrightarrow> \<not> tooBig mi \<Longrightarrow> \<not> tooBig sec \<Longrightarrow>
   buildDuration y mo w d h mi sec =
     Inr \<lparr>Years = fieldValue y, Months = fieldValue mo, Weeks = fieldValue w, Days = fieldValue d,
          Hours = fieldValue h, Minutes = fieldValue mi, Seconds = fieldValue sec\<rparr>"
  by (simp add: buildDuration_def)

lemma buildDuration_tooBig:
  "tooBig y \<or> tooBig mo \<or> tooBig w \<or> tooBig d \<or> tooBig h \<or> tooBig mi \<or> tooBig sec \<Longrightarrow>
   \<exists>p \<in> {y, mo, w, d, h, mi, sec}. tooBig p \<and> buildDuration y mo w d h mi sec = Inl (NumErrorRange p)"
  by (auto simp: buildDuration_def)

text \<open>
  C1. Whenever \<open>full\<close> matches the input, with submatches \<open>m\<close>: the matched text
  \<open>m ! 0\<close> is \<open>P\<close> followed by exactly the units that took part in the match, each a
  run of digits and its letter, in the order of the grammar; every Duration the parser
  returns has each field equal to the integer value of its unit's digit run, and zero
  for a unit that is absent from the match; and the parser does return that Duration
  when every digit run fits an \<open>int\<close>. In particular \<open>P1Y2M3W4DT3H4M5S\<close> yields
  Years=1, Months=2, Weeks=3, Days=4, Hours=3, Minutes=4, Seconds=5 and \<open>P1W\<close> yields
  Weeks=1 with every other field zero.
\<close>

theorem FromString_populates_matched_fields:
  "(FindStringSubmatch full s = Some m \<longrightarrow>
      m ! 0 = CHR ''P'' # seg (m ! 2) CHR ''Y'' @ seg (m ! 4) CHR ''M'' @ seg (m ! 6) CHR ''W'' @
                seg (m ! 8) CHR ''D'' @ m ! 9 \<and>
      timeText (m ! 9) (m ! 11) (m ! 13) (m ! 15) \<and>
      list_all isDigit (m ! 2) \<and> list_all isDigit (m ! 4) \<and> list_all isDigit (m ! 6) \<and>
      list_all isDigit (m ! 8) \<and> list_all isDigit (m ! 11) \<and> list_all isDigit (m ! 13) \<and>
      list_all isDigit (m ! 15) \<and>
      (\<forall>r. FromString s = Inr r \<longrightarrow>
         r = \<lparr>Years = fieldValue (m ! 2), Months = fieldValue (m ! 4),
              Weeks = fieldValue (m ! 6), Days = fieldValue (m ! 8),
              Hours = fieldValue (m ! 11), Minutes = fieldValue (m ! 13),
              Seconds = fieldValue (m ! 15)\<rparr>) \<and>
      (\<not> tooBig (m ! 2) \<and> \<not> tooBig (m ! 4) \<and> \<not> tooBig (m ! 6) \<and> \<not> tooBig (m ! 8) \<and>
       \<not> tooBig (m ! 11) \<and> \<not> tooBig (m ! 13) \<and> \<not> tooBig (m ! 15) \<longrightarrow>
         FromString s =
           Inr \<lparr>Years = fieldValue (m ! 2), Months = fieldValue (m ! 4),
                Weeks = fieldValue (m ! 6), Days = fieldValue (m ! 8),
                Hours = fieldValue (m ! 11), Minutes = fieldValue (m ! 13),
                Seconds = fieldValue (m ! 15)\<rparr>)) \<and>
   FromString ''P1Y2M3W4DT3H4M5S'' =
     Inr \<lparr>Years = 1, Months = 2, Weeks = 3, Days = 4, Hours = 3, Minutes = 4, Seconds = 5\<rparr> \<and>
   FromString ''P1W'' =
     Inr \<lparr>Years = 0, Months = 0, Weeks = 1, Days = 0, Hours = 0, Minutes = 0, Seconds = 0\<rparr>"
proof -
  have general: "FindStringSubmatch full s = Some m \<longrightarrow>
      m ! 0 = CHR ''P'' # seg (m ! 2) CHR ''Y'' @ seg (m ! 4) CHR ''M'' @ seg (m ! 6) CHR ''W'' @
                seg (m ! 8) CHR ''D'' @ m ! 9 \<and>
      timeText (m ! 9) (m ! 11) (m ! 13) (m ! 15) \<and>
      list_all isDigit (m ! 2) \<and> list_all isDigit (m ! 4) \<and> list_all isDigit (m ! 6) \<and>
      list_all isDigit (m ! 8) \<and> list_all isDigit (m ! 11) \<and> list_all isDigit (m ! 13) \<and>
      list_all isDigit (m ! 15) \<and>
      (\<forall>r. FromString s = Inr r \<longrightarrow>
         r = \<lparr>Years = fieldValue (m ! 2), Months = fieldValue (m ! 4),
              Weeks = fieldValue (m ! 6), Days = fieldValue (m ! 8),
              Hours = fieldValue (m ! 11), Minutes = fieldValue (m ! 13),
              Seconds = fieldValue (m ! 15)\<rparr>) \<and>
      (\<not> tooBig (m ! 2) \<and> \<not> tooBig (m ! 4) \<and> \<not> tooBig (m ! 6) \<and> \<not> tooBig (m ! 8) \<and>
       \<not> tooBig (m ! 11) \<and> \<not> tooBig (m ! 13) \<and> \<not> tooBig (m ! 15) \<longrightarrow>
         FromString s =
           Inr \<lparr>Years = fieldValue (m ! 2), Months = fieldValue (m ! 4),
                Weeks = fieldValue (m ! 6), Days = fieldValue (m ! 8),
                Hours = fieldValue (m ! 11), Minutes = fieldValue (m ! 13),
                Seconds = fieldValue (m ! 15)\<rparr>)"
  proof
    assume a: "FindStringSubmatch full s = Some m"
    note st = submatch_structure [OF a]
    have conv: "\<forall>r. FromString s = Inr r \<longrightarrow>
         r = \<lparr>Years = fieldValue (m ! 2), Months = fieldValue (m ! 4),
              Weeks = fieldValue (m ! 6), Days = fieldValue (m ! 8),
              Hours = fieldValue (m ! 11), Minutes = fieldValue (m ! 13),
              Seconds = fieldValue (m ! 15)\<rparr>"
      unfolding FromString_matched [OF a] by (intro allI impI, rule buildDuration_Inr)
    have ok: "\<not> tooBig (m ! 2) \<and> \<not> tooBig (m ! 4) \<and> \<not> tooBig (m ! 6) \<and> \<not> tooBig (m ! 8) \<and>
       \<not> tooBig (m ! 11) \<and> \<not> tooBig (m ! 13) \<and> \<not> tooBig (m ! 15) \<longrightarrow>
         FromString s =
           Inr \<lparr>Years = fieldValue (m ! 2), Months = fieldValue (m ! 4),
                Weeks = fieldValue (m ! 6), Days = fieldValue (m ! 8),
                Hours = fieldValue (m ! 11), Minutes = fieldValue (m ! 13),
                Seconds = fieldValue (m ! 15)\<rparr>"
      unfolding FromString_matched [OF a] by (intro impI, elim conjE, rule buildDuration_ok)
    show "m ! 0 = CHR ''P'' # seg (m ! 2) CHR ''Y'' @ seg (m ! 4) CHR ''M'' @
        seg (m ! 6) CHR ''W'' @ seg (m ! 8) CHR ''D'' @ m ! 9 \<and>
      timeText (m ! 9) (m ! 11) (m ! 13) (m ! 15) \<and>
      list_all isDigit (m ! 2) \<and> list_all isDigit (m ! 4) \<and> list_all isDigit (m ! 6) \<and>
      list_all isDigit (m ! 8) \<and> list_all isDigit (m ! 11) \<and> list_all isDigit (m ! 13) \<and>
      list_all isDigit (m ! 15) \<and>
      (\<forall>r. FromString s = Inr r \<longrightarrow>
         r = \<lparr>Years = fieldValue (m ! 2), Months = fieldValue (m ! 4),
              Weeks = fieldValue (m ! 6), Days = fieldValue (m ! 8),
              Hours = fieldValue (m ! 11), Minutes = fieldValue (m ! 13),
              Seconds = fieldValue (m ! 15)\<rparr>) \<and>
      (\<not> tooBig (m ! 2) \<and> \<not> tooBig (m ! 4) \<and> \<not> tooBig (m ! 6) \<and> \<not> tooBig (m ! 8) \<and>
       \<not> tooBig (m ! 11) \<and> \<not> tooBig (m ! 13) \<and> \<not> tooBig (m ! 15) \<longrightarrow>
         FromString s =
           Inr \<lparr>Years = fieldValue (m ! 2), Months = fieldValue (m ! 4),
                Weeks = fieldValue (m ! 6), Days = fieldValue (m ! 8),
                Hours = fieldValue (m ! 11), Minutes = fieldValue (m ! 13),
                Seconds = fieldValue (m ! 15)\<rparr>)"
      by (intro conjI st(2-10) conv ok)
  qed
  from general FromString_full_example FromString_week_example show ?thesis
    by (intro conjI)
qed

theorem FromString_populates_matched_fields_witness:
  "FindStringSubmatch full ''P1Y2M3W4DT3H4M5S'' =
     Some [''P1Y2M3W4DT3H4M5S'', ''1Y'', ''1'', ''2M'', ''2'', ''3W'', ''3'', ''4D'', ''4'',
           ''T3H4M5S'', ''3H'', ''3'', ''4M'', ''4'', ''5S'', ''5''] \<and>
   timeText ''T3H4M5S'' ''3'' ''4'' ''5'' \<and>
   FromString ''P1Y2M3W4DT3H4M5S'' =
     Inr \<lparr>Years = fieldValue ''1'', Months = fieldValue ''2'', Weeks = fieldValue ''3'',
          Days = fieldValue ''4'', Hours = fieldValue ''3'', Minutes = fieldValue ''4'',
          Seconds = fieldValue ''5''\<rparr>"
proof -
  let ?m = "[''P1Y2M3W4DT3H4M5S'', ''1Y'', ''1'', ''2M'', ''2'', ''3W'', ''3'', ''4D'', ''4'',
        ''T3H4M5S'', ''3H'', ''3'', ''4M'', ''4'', ''5S'', ''5'']"
  note t = FromString_populates_matched_fields [of "''P1Y2M3W4DT3H4M5S''" ?m,
      THEN conjunct1, THEN mp, OF submatch_full_example]
  have small: "\<not> tooBig ''1''" "\<not> tooBig ''2''" "\<not> tooBig ''3''" "\<not> tooBig ''4''" "\<not> tooBig ''5''"
    by (simp_all add: tooBig_def decimal_def digitVal_def maxInt_def)
  note tm = t [THEN conjunct2, THEN conjunct1]
  then have tt: "timeText ''T3H4M5S'' ''3'' ''4'' ''5''" by simp
  note t [THEN conjunct2, THEN conjunct2, THEN conjunct2, THEN conjunct2, THEN conjunct2,
      THEN conjunct2, THEN conjunct2, THEN conjunct2, THEN conjunct2, THEN conjunct2]
  then have "FromString ''P1Y2M3W4DT3H4M5S'' =
     Inr \<lparr>Years = fieldValue ''1'', Months = fieldValue ''2'', Weeks = fieldValue ''3'',
          Days = fieldValue ''4'', Hours = fieldValue ''3'', Minutes = fieldValue ''4'',
          Seconds = fieldValue ''5''\<rparr>"
    using small by simp
  with submatch_full_example tt show ?thesis by (intro conjI)
qed


lemma leftmost_FindStringSubmatch:
  "leftmost re s 0 = Some (i, mt, k) \<Longrightarrow>
   \<exists>m. FindStringSubmatch re s = Some m \<and> m ! 0 = mt"
  by (simp add: FindStringSubmatch_def)

text \<open>
  C5 (as amended). The match is not anchored at the start of the input: whenever the
  input contains a \<open>P\<close>, the matched portion begins at the first \<open>P\<close>, wherever
  that is; the characters before it and the unconsumed characters after the match are
  both ignored, in that parsing the matched portion alone gives the same result.
\<close>

theorem match_begins_at_first_P:
  assumes "CHR ''P'' \<in> set s"
  shows "\<exists>mt caps post.
           leftmost full s 0 = Some (length (takeWhile (\<lambda>c. c \<noteq> CHR ''P'') s), mt, caps) \<and>
           s = takeWhile (\<lambda>c. c \<noteq> CHR ''P'') s @ mt @ post \<and>
           hd mt = CHR ''P'' \<and>
           FromString s = FromString mt"
proof -
  have np: "notP = (\<lambda>c. c \<noteq> CHR ''P'')" by (rule ext) (simp add: notP_def)
  from assms obtain m where m: "FindStringSubmatch full s = Some m"
    using FindStringSubmatch_Some_iff [of s] by blast
  note st = submatch_structure [OF m]
  from st(11) obtain post where post: "s = takeWhile notP s @ m ! 0 @ post" by blast
  from assms dropWhile_notP_Nil [of s] obtain x s0 where dw: "dropWhile notP s = x # s0"
    by (cases "dropWhile notP s") auto
  obtain mt caps where lm: "leftmost full s 0 = Some (length (takeWhile notP s), mt, caps)"
    unfolding leftmost_full dw by simp
  from leftmost_FindStringSubmatch [OF lm] m have mt: "mt = m ! 0" by simp
  have "hd mt = CHR ''P''" unfolding mt st(9) by simp
  moreover have "FromString s = FromString mt"
    unfolding mt by (rule FromString_of_match [OF m, symmetric])
  ultimately show ?thesis
    using lm post unfolding mt np by blast
qed

theorem match_begins_at_first_P_witness:
  "CHR ''P'' \<in> set ''xP1Y'' \<and>
   (\<exists>mt caps post.
      leftmost full ''xP1Y'' 0 = Some (1, mt, caps) \<and> ''xP1Y'' = ''x'' @ mt @ post \<and>
      hd mt = CHR ''P'' \<and> FromString ''xP1Y'' = FromString mt)"
  using match_begins_at_first_P [of "''xP1Y''"] by simp

text \<open>
  C5 as stated fails: on \<open>xP1Y\<close> the match begins at index 1, not at the first
  character, and the leading \<open>x\<close> is ignored.
\<close>

theorem match_not_anchored_counterexample:
  "map_option fst (leftmost full ''xP1Y'' 0) = Some 1 \<and>
   FromString ''xP1Y'' =
     Inr \<lparr>Years = 1, Months = 0, Weeks = 0, Days = 0, Hours = 0, Minutes = 0, Seconds = 0\<rparr>"
  using leftmost_offset_example FromString_offset_example by (intro conjI)

text \<open>
  C6 (as amended). Every input that contains no \<open>P\<close> anywhere, such as \<open>asdf\<close>,
  fails with \<open>ErrBadFormat\<close>, and the parser returns \<open>ErrBadFormat\<close> exactly when the
  unanchored pattern matches nowhere in the input.
\<close>

theorem ErrBadFormat_without_P:
  "(CHR ''P'' \<notin> set s \<longrightarrow> FromString s = Inl ErrBadFormat) \<and>
   (FromString s = Inl ErrBadFormat) = (\<not> MatchString full s) \<and>
   FromString ''asdf'' = Inl ErrBadFormat"
proof (intro conjI impI)
  assume "CHR ''P'' \<notin> set s"
  then show "FromString s = Inl ErrBadFormat" by (rule FromString_unmatched)
next
  show "(FromString s = Inl ErrBadFormat) = (\<not> MatchString full s)"
  proof (cases "MatchString full s")
    case False
    then show ?thesis by (simp add: FromString_def)
  next
    case True
    then obtain m where m: "FindStringSubmatch full s = Some m"
      using FindStringSubmatch_Some_iff [of s] by (auto simp: MatchString_full)
    from buildDuration_cases [of "m ! 2" "m ! 4" "m ! 6" "m ! 8" "m ! 11" "m ! 13" "m ! 15"]
    have "FromString s \<noteq> Inl ErrBadFormat"
      unfolding FromString_matched [OF m] by auto
    with True show ?thesis by simp
  qed
next
  show "FromString ''asdf'' = Inl ErrBadFormat" by (rule FromString_bad_example)
qed

theorem ErrBadFormat_without_P_witness:
  "CHR ''P'' \<notin> set ''asdf'' \<and> FromString ''asdf'' = Inl ErrBadFormat \<and>
   \<not> MatchString full ''asdf''"
proof -
  note t = ErrBadFormat_without_P [of "''asdf''"]
  have np: "CHR ''P'' \<notin> set ''asdf''" by simp
  from t np have e: "FromString ''asdf'' = Inl ErrBadFormat" by blast
  from t e have "\<not> MatchString full ''asdf''" by blast
  with np e show ?thesis by (intro conjI)
qed

text \<open>
  C6 as stated fails: \<open>xP1Y\<close> does not begin with \<open>P\<close>, and parsing it succeeds.
\<close>

theorem no_leading_P_counterexample:
  "hd ''xP1Y'' \<noteq> CHR ''P'' \<and>
   FromString ''xP1Y'' =
     Inr \<lparr>Years = 1, Months = 0, Weeks = 0, Days = 0, Hours = 0, Minutes = 0, Seconds = 0\<rparr>"
  using FromString_offset_example by simp

text \<open>
  C8. When the pattern matches and the digit run of some unit exceeds the largest
  \<open>int\<close>, the parser returns the range error of \<open>strconv.Atoi\<close> for such a digit run
  of the match: it returns no Duration and does not panic.
\<close>

theorem FromString_overflow_is_error:
  assumes "FindStringSubmatch full s = Some m"
    and "tooBig (m ! 2) \<or> tooBig (m ! 4) \<or> tooBig (m ! 6) \<or> tooBig (m ! 8) \<or>
         tooBig (m ! 11) \<or> tooBig (m ! 13) \<or> tooBig (m ! 15)"
  shows "\<exists>p. FromString s = Inl (NumErrorRange p) \<and> tooBig p \<and> p \<in> set m"
proof -
  from buildDuration_tooBig [OF assms(2)]
  obtain p where p: "p \<in> {m ! 2, m ! 4, m ! 6, m ! 8, m ! 11, m ! 13, m ! 15}" "tooBig p"
    "buildDuration (m ! 2) (m ! 4) (m ! 6) (m ! 8) (m ! 11) (m ! 13) (m ! 15) = Inl (NumErrorRange p)"
    by blast
  from submatch_structure(1) [OF assms(1)] p(1) have "p \<in> set m"
    by (auto intro!: nth_mem)
  with p show ?thesis
    unfolding FromString_matched [OF assms(1)] by blast
qed

theorem FromString_overflow_is_error_witness:
  "tooBig ''9223372036854775808'' \<and>
   (\<exists>p. FromString ''P9223372036854775808Y'' = Inl (NumErrorRange p) \<and> tooBig p)"
proof -
  have big: "tooBig ''9223372036854775808''"
    by (simp add: tooBig_def decimal_def digitVal_def maxInt_def)
  from FromString_overflow_is_error [OF submatch_overflow_example] big
  show ?thesis by auto
qed

text \<open>
  C10. \<open>FromString\<close> returns \<open>ErrBadFormat\<close> if and only if the input contains no
  \<open>P\<close>. An input with a \<open>P\<close> anywhere, also after other characters, matches, and the
  result is a Duration or the range error of a digit run, never \<open>ErrBadFormat\<close>.
\<close>

theorem ErrBadFormat_iff_no_P:
  "(FromString s = Inl ErrBadFormat) = (CHR ''P'' \<notin> set s) \<and>
   (CHR ''P'' \<in> set s \<longrightarrow>
      MatchString full s \<and>
      ((\<exists>r. FromString s = Inr r) \<or> (\<exists>p. FromString s = Inl (NumErrorRange p))))"
proof (cases "CHR ''P'' \<in> set s")
  case False
  then show ?thesis by (simp add: FromString_unmatched)
next
  case True
  then obtain m where m: "FindStringSubmatch full s = Some m"
    using FindStringSubmatch_Some_iff [of s] by blast
  from buildDuration_cases [of "m ! 2" "m ! 4" "m ! 6" "m ! 8" "m ! 11" "m ! 13" "m ! 15"]
  have "(\<exists>r. FromString s = Inr r) \<or> (\<exists>p. FromString s = Inl (NumErrorRange p))"
    unfolding FromString_matched [OF m] .
  with True show ?thesis by (auto simp: MatchString_full)
qed

lemma submatch_xxP_example:
  "FindStringSubmatch full ''xxP'' =
     Some [''P'', [], [], [], [], [], [], [], [], [], [], [], [], [], [], []]"
  by (simp add: scan_eval)

theorem ErrBadFormat_iff_no_P_witness:
  "CHR ''P'' \<in> set ''xxP'' \<and> FromString ''xxP'' \<noteq> Inl ErrBadFormat \<and>
   FromString ''xxP'' = Inr zeroDuration"
proof -
  have "FromString ''xxP'' = Inr zeroDuration"
    by (simp add: FromString_matched [OF submatch_xxP_example] build_eval zeroDuration_def)
  with ErrBadFormat_iff_no_P [of "''xxP''"] show ?thesis by simp
qed

section \<open>Properties of the formatter\<close>

text \<open>
  \<open>format_spec\<close> is the formatter as the specification words it, a conditional string
  builder: \<open>emitUnit v c\<close> is the value and the unit letter of a nonzero field and
  nothing for a zero one. It is compared below with \<open>String\<close>, the execution of the
  template.
\<close>


definition emitUnit :: "int64 \<Rightarrow> char \<Rightarrow> string" where
  "emitUnit v c = (if v \<noteq> 0 then FormatInt (sint v) @ [c] else [])"

definition format_spec :: "Duration \<Rightarrow> string" where
  "format_spec d =
     ''P'' @ emitUnit (Years d) CHR ''Y'' @ emitUnit (Months d) CHR ''M'' @
     emitUnit (Weeks d) CHR ''W'' @ emitUnit (Days d) CHR ''D'' @
     (if Hours d \<noteq> 0 \<or> Minutes d \<noteq> 0 \<or> Seconds d \<noteq> 0 then ''T'' else []) @
     emitUnit (Hours d) CHR ''H'' @ emitUnit (Minutes d) CHR ''M'' @
     emitUnit (Seconds d) CHR ''S''"

lemma walk_unit:
  "evalField d name = Some (IntVal v) \<Longrightarrow>
   walk d (IfNode name [ActionNode name, TextNode [c]]) = Inr (emitUnit v c)"
  by (simp add: isTrue_def printValue_def emitUnit_def)

lemma evalField_simps:
  "evalField d ''Years'' = Some (IntVal (Years d))"
  "evalField d ''Months'' = Some (IntVal (Months d))"
  "evalField d ''Weeks'' = Some (IntVal (Weeks d))"
  "evalField d ''Days'' = Some (IntVal (Days d))"
  "evalField d ''Hours'' = Some (IntVal (Hours d))"
  "evalField d ''Minutes'' = Some (IntVal (Minutes d))"
  "evalField d ''Seconds'' = Some (IntVal (Seconds d))"
  "evalField d ''HasTimePart'' = Some (BoolVal (HasTimePart d))"
  by (simp_all add: evalField_def)

lemma walk_T:
  "walk d (IfNode ''HasTimePart'' [TextNode ''T'']) =
     Inr (if Hours d \<noteq> 0 \<or> Minutes d \<noteq> 0 \<or> Seconds d \<noteq> 0 then ''T'' else [])"
  by (simp add: evalField_simps isTrue_def HasTimePart_def)

lemma String_format_spec: "String d = Inr (format_spec d)"
proof -
  have "walkList d tmpl =
        Inr (''P'' @ emitUnit (Years d) CHR ''Y'' @ emitUnit (Months d) CHR ''M'' @
             emitUnit (Weeks d) CHR ''W'' @ emitUnit (Days d) CHR ''D'' @
             (if Hours d \<noteq> 0 \<or> Minutes d \<noteq> 0 \<or> Seconds d \<noteq> 0 then ''T'' else []) @
             emitUnit (Hours d) CHR ''H'' @ emitUnit (Minutes d) CHR ''M'' @
             emitUnit (Seconds d) CHR ''S'' @ [])"
    unfolding tmpl_def
    by (simp only: walkList.simps walk.simps(1) sum.case walk_T
        walk_unit [OF evalField_simps(1)] walk_unit [OF evalField_simps(2)]
        walk_unit [OF evalField_simps(3)] walk_unit [OF evalField_simps(4)]
        walk_unit [OF evalField_simps(5)] walk_unit [OF evalField_simps(6)]
        walk_unit [OF evalField_simps(7)])
  then show ?thesis by (simp add: String_def format_spec_def)
qed

lemmas format_eval = format_spec_def emitUnit_def FormatInt_def decNat.simps digitChar_def

lemma String_examples:
  "String \<lparr>Years = 0, Months = 0, Weeks = 0, Days = 0, Hours = 0, Minutes = 0, Seconds = 0\<rparr> = Inr ''P''"
  "String \<lparr>Years = 1, Months = 0, Weeks = 0, Days = 2, Hours = 0, Minutes = 0, Seconds = 0\<rparr> = Inr ''P1Y2D''"
  "String \<lparr>Years = 0, Months = 0, Weeks = 0, Days = 0, Hours = 1, Minutes = 2, Seconds = 3\<rparr> = Inr ''PT1H2M3S''"
  "String \<lparr>Years = 0, Months = 2, Weeks = 0, Days = 0, Hours = 1, Minutes = 0, Seconds = 0\<rparr> = Inr ''P2MT1H''"
  "String \<lparr>Years = 1, Months = 0, Weeks = 0, Days = 2, Hours = 3, Minutes = 4, Seconds = 5\<rparr> = Inr ''P1Y2DT3H4M5S''"
  "String \<lparr>Years = 0, Months = 0, Weeks = 1, Days = 0, Hours = 0, Minutes = 0, Seconds = 0\<rparr> = Inr ''P1W''"
  "String \<lparr>Years = 0, Months = 2, Weeks = 0, Days = 0, Hours = 0, Minutes = 0, Seconds = 0\<rparr> = Inr ''P2M''"
  by (simp_all add: String_format_spec format_eval)


lemma digit_cases: "n < 10 \<Longrightarrow> n \<in> {0, 1, 2, 3, 4, 5, 6, 7, 8, 9 :: nat}"
  by auto

lemma digitChar_isDigit: "n < 10 \<Longrightarrow> isDigit (digitChar n)"
  by (drule digit_cases) (auto simp: digitChar_def isDigit_def)

lemma digitVal_digitChar: "n < 10 \<Longrightarrow> digitVal (digitChar n) = n"
  by (drule digit_cases) (auto simp: digitChar_def digitVal_def)

lemma decimal_snoc: "decimal (xs @ [c]) = 10 * decimal xs + digitVal c"
  by (simp add: decimal_def)

lemma decNat_digits: "list_all isDigit (decNat n)"
proof (induction n rule: decNat.induct)
  case (1 n)
  show ?case
  proof (cases "n < 10")
    case True
    then show ?thesis by (subst decNat.simps) (simp add: digitChar_isDigit)
  next
    case False
    with 1 show ?thesis by (subst decNat.simps) (simp add: digitChar_isDigit)
  qed
qed

lemma decimal_decNat: "decimal (decNat n) = n"
proof (induction n rule: decNat.induct)
  case (1 n)
  show ?case
  proof (cases "n < 10")
    case True
    then show ?thesis
      by (subst decNat.simps) (simp add: decimal_def digitVal_digitChar)
  next
    case False
    with 1 show ?thesis
      by (subst decNat.simps) (simp add: decimal_snoc digitVal_digitChar)
  qed
qed

lemma decNat_nonempty: "decNat n \<noteq> []"
  by (subst decNat.simps) simp

definition fieldText :: "int64 \<Rightarrow> string" where
  "fieldText v = (if v \<noteq> 0 then FormatInt (sint v) else [])"

lemma emitUnit_seg: "emitUnit v c = seg (fieldText v) c"
  by (simp add: emitUnit_def seg_def fieldText_def FormatInt_def decNat_nonempty)

lemma fieldText_digits: "0 \<le> sint v \<Longrightarrow> list_all isDigit (fieldText v)"
  by (simp add: fieldText_def FormatInt_def decNat_digits)

lemma sint_le_maxInt: "nat (sint (v :: int64)) \<le> maxInt"
proof -
  have "sint v < 2 ^ 63" using sint_lt [of v] by simp
  then show ?thesis by (simp add: maxInt_def)
qed

lemma fieldText_fits: "0 \<le> sint v \<Longrightarrow> \<not> tooBig (fieldText v)"
  using sint_le_maxInt [of v]
  by (simp add: fieldText_def tooBig_def FormatInt_def decimal_decNat decimal_Nil)

lemma fieldValue_fieldText: "0 \<le> sint v \<Longrightarrow> fieldValue (fieldText v) = v"
  by (simp add: fieldText_def fieldValue_def FormatInt_def decimal_decNat decNat_nonempty)

lemma format_spec_canonical:
  "format_spec d =
     CHR ''P'' # canonical (fieldText (Years d)) (fieldText (Months d)) (fieldText (Weeks d))
       (fieldText (Days d))
       (if HasTimePart d
        then CHR ''T'' # seg (fieldText (Hours d)) CHR ''H'' @ seg (fieldText (Minutes d)) CHR ''M'' @
             seg (fieldText (Seconds d)) CHR ''S''
        else [])"
  by (auto simp: format_spec_def canonical_def emitUnit_seg HasTimePart_def seg_def fieldText_def)

lemma timeText_fieldText:
  "timeText
     (if HasTimePart d
      then CHR ''T'' # seg (fieldText (Hours d)) CHR ''H'' @ seg (fieldText (Minutes d)) CHR ''M'' @
           seg (fieldText (Seconds d)) CHR ''S''
      else [])
     (fieldText (Hours d)) (fieldText (Minutes d)) (fieldText (Seconds d))"
  by (auto simp: timeText_def HasTimePart_def fieldText_def)

definition nonNegative :: "Duration \<Rightarrow> bool" where
  "nonNegative d =
     (0 \<le> sint (Years d) \<and> 0 \<le> sint (Months d) \<and> 0 \<le> sint (Weeks d) \<and> 0 \<le> sint (Days d) \<and>
      0 \<le> sint (Hours d) \<and> 0 \<le> sint (Minutes d) \<and> 0 \<le> sint (Seconds d))"

lemma FromString_format_spec:
  assumes "nonNegative d"
  shows "FromString (format_spec d) = Inr d"
proof -
  from assms have nn: "0 \<le> sint (Years d)" "0 \<le> sint (Months d)" "0 \<le> sint (Weeks d)"
    "0 \<le> sint (Days d)" "0 \<le> sint (Hours d)" "0 \<le> sint (Minutes d)" "0 \<le> sint (Seconds d)"
    by (simp_all add: nonNegative_def)
  have "FromString (format_spec d) =
        buildDuration (fieldText (Years d)) (fieldText (Months d)) (fieldText (Weeks d))
          (fieldText (Days d)) (fieldText (Hours d)) (fieldText (Minutes d)) (fieldText (Seconds d))"
    unfolding format_spec_canonical
    by (intro FromString_canonical fieldText_digits nn timeText_fieldText)
  also have "\<dots> = Inr \<lparr>Years = Years d, Months = Months d, Weeks = Weeks d, Days = Days d,
                       Hours = Hours d, Minutes = Minutes d, Seconds = Seconds d\<rparr>"
    by (simp add: buildDuration_ok fieldText_fits fieldValue_fieldText nn)
  finally show ?thesis by simp
qed


text \<open>
  C2. For every Duration (with nonnegative fields or not), executing the template
  writes \<open>P\<close>, then the value and the letter of each of Years, Months, Weeks and Days
  that is nonzero, in this order, then \<open>T\<close> exactly when one of Hours, Minutes and
  Seconds is nonzero, then the value and the letter of each of these that is nonzero:
  the text \<open>format_spec d\<close>, which follows the words of the specification. The
  all-zero Duration gives \<open>P\<close>, and Hours 1 with Months 2 gives \<open>P2MT1H\<close>.
\<close>

theorem String_emits_nonzero_fields_in_order:
  "String d = Inr (format_spec d) \<and>
   String \<lparr>Years = 0, Months = 0, Weeks = 0, Days = 0, Hours = 0, Minutes = 0, Seconds = 0\<rparr> =
     Inr ''P'' \<and>
   String \<lparr>Years = 0, Months = 2, Weeks = 0, Days = 0, Hours = 1, Minutes = 0, Seconds = 0\<rparr> =
     Inr ''P2MT1H'' \<and>
   String \<lparr>Years = 0, Months = 2, Weeks = 0, Days = 0, Hours = 0, Minutes = 0, Seconds = 0\<rparr> =
     Inr ''P2M''"
  by (intro conjI String_format_spec String_examples)

theorem String_emits_nonzero_fields_in_order_witness:
  "String \<lparr>Years = 1, Months = 0, Weeks = 0, Days = 2, Hours = 3, Minutes = 4, Seconds = 5\<rparr> =
     Inr ''P1Y2DT3H4M5S''"
  using String_emits_nonzero_fields_in_order
    [of "\<lparr>Years = 1, Months = 0, Weeks = 0, Days = 2, Hours = 3, Minutes = 4, Seconds = 5\<rparr>"]
  by (simp add: format_eval)

text \<open>
  C7. For every Duration whose fields are nonnegative, of any magnitude an \<open>int\<close>
  holds and with any number of nonzero fields (so in particular with at most one
  nonzero field in the date group and at most one in the time group), \<open>String\<close>
  returns a text, and \<open>FromString\<close> of that text succeeds and returns the Duration.
\<close>

theorem FromString_String_roundtrip:
  assumes "nonNegative d"
  shows "\<exists>t. String d = Inr t \<and> FromString t = Inr d"
  using FromString_format_spec [OF assms] String_format_spec [of d] by blast

theorem FromString_String_roundtrip_witness:
  "nonNegative \<lparr>Years = 0, Months = 2, Weeks = 0, Days = 0, Hours = 1, Minutes = 0, Seconds = 0\<rparr> \<and>
   String \<lparr>Years = 0, Months = 2, Weeks = 0, Days = 0, Hours = 1, Minutes = 0, Seconds = 0\<rparr> =
     Inr ''P2MT1H'' \<and>
   FromString ''P2MT1H'' =
     Inr \<lparr>Years = 0, Months = 2, Weeks = 0, Days = 0, Hours = 1, Minutes = 0, Seconds = 0\<rparr>"
proof -
  let ?d = "\<lparr>Years = 0, Months = 2, Weeks = 0, Days = 0, Hours = 1, Minutes = 0, Seconds = 0 :: int64\<rparr>"
  have nn: "nonNegative ?d" by (simp add: nonNegative_def)
  have str: "String ?d = Inr ''P2MT1H''" by (rule String_examples(4))
  from FromString_String_roundtrip [OF nn] str
  have "FromString ''P2MT1H'' = Inr ?d" by simp
  with nn str show ?thesis by (intro conjI)
qed

section \<open>Properties of the estimated resolver\<close>



text \<open>The estimated span in exact integer arithmetic, in nanoseconds.\<close>

definition hourNanos :: int where
  "hourNanos = 3600 * 1000000000"

definition estimateExact :: "Duration \<Rightarrow> int" where
  "estimateExact d =
     sint (Years d) * (365 * 24 * hourNanos) + sint (Months d) * (30 * 24 * hourNanos) +
     sint (Weeks d) * (7 * 24 * hourNanos) + sint (Days d) * (24 * hourNanos) +
     sint (Hours d) * hourNanos + sint (Minutes d) * (60 * 1000000000) +
     sint (Seconds d) * 1000000000"

lemma time_constants:
  "Second = 1000000000" "Minute = 60000000000" "Hour = 3600000000000"
  by (simp_all add: Hour_def Minute_def Second_def Millisecond_def Microsecond_def Nanosecond_def)

lemma ToEstimatedDuration_word:
  "ToEstimatedDuration d = word_of_int (estimateExact d)"
  by (simp add: ToEstimatedDuration_def estimateExact_def hourNanos_def time_constants Let_def
      algebra_simps)

lemma sint_word_of_int_in_range:
  "- (2 ^ 63) \<le> x \<Longrightarrow> x < 2 ^ 63 \<Longrightarrow> sint (word_of_int x :: int64) = x"
  by (simp add: sint_sbintrunc' signed_take_bit_int_eq_self)

lemma estimateExact_nonneg: "nonNegative d \<Longrightarrow> 0 \<le> estimateExact d"
  by (simp add: nonNegative_def estimateExact_def hourNanos_def)


lemma ToEstimatedDuration_units:
  "ToEstimatedDuration \<lparr>Years = 1, Months = 0, Weeks = 0, Days = 0, Hours = 0, Minutes = 0, Seconds = 0\<rparr> = Hour * 24 * 365"
  "ToEstimatedDuration \<lparr>Years = 0, Months = 1, Weeks = 0, Days = 0, Hours = 0, Minutes = 0, Seconds = 0\<rparr> = Hour * 24 * 30"
  "ToEstimatedDuration \<lparr>Years = 0, Months = 0, Weeks = 1, Days = 0, Hours = 0, Minutes = 0, Seconds = 0\<rparr> = Hour * 24 * 7"
  "ToEstimatedDuration \<lparr>Years = 0, Months = 0, Weeks = 0, Days = 1, Hours = 0, Minutes = 0, Seconds = 0\<rparr> = Hour * 24"
  "ToEstimatedDuration \<lparr>Years = 0, Months = 0, Weeks = 0, Days = 0, Hours = 1, Minutes = 0, Seconds = 0\<rparr> = Hour"
  "ToEstimatedDuration \<lparr>Years = 0, Months = 0, Weeks = 0, Days = 0, Hours = 0, Minutes = 1, Seconds = 0\<rparr> = Minute"
  "ToEstimatedDuration \<lparr>Years = 0, Months = 0, Weeks = 0, Days = 0, Hours = 0, Minutes = 0, Seconds = 1\<rparr> = Second"
  by (simp_all add: ToEstimatedDuration_def Let_def)

text \<open>
  C4 (as amended). \<open>ToEstimatedDuration\<close> takes no anchor, and in the wrap-around
  arithmetic of \<open>int64\<close> it is years*365*24h + months*30*24h + weeks*7*24h +
  days*24h + hours*1h + minutes*1min + seconds*1s for every Duration. For nonnegative
  fields it equals that sum exactly whenever the sum is below \<open>2^63\<close> nanoseconds (about
  292 years), the largest \<open>time.Duration\<close>. Each single-unit Duration of value 1
  yields 365 days, 30 days, 7 days, 1 day, 1 hour, 1 minute and 1 second.
\<close>

theorem ToEstimatedDuration_exact_in_range:
  "ToEstimatedDuration d = word_of_int (estimateExact d) \<and>
   (nonNegative d \<and> estimateExact d < 2 ^ 63 \<longrightarrow>
      sint (ToEstimatedDuration d) = estimateExact d) \<and>
   ToEstimatedDuration \<lparr>Years = 1, Months = 0, Weeks = 0, Days = 0, Hours = 0, Minutes = 0, Seconds = 0\<rparr> = Hour * 24 * 365 \<and>
   ToEstimatedDuration \<lparr>Years = 0, Months = 1, Weeks = 0, Days = 0, Hours = 0, Minutes = 0, Seconds = 0\<rparr> = Hour * 24 * 30 \<and>
   ToEstimatedDuration \<lparr>Years = 0, Months = 0, Weeks = 1, Days = 0, Hours = 0, Minutes = 0, Seconds = 0\<rparr> = Hour * 24 * 7 \<and>
   ToEstimatedDuration \<lparr>Years = 0, Months = 0, Weeks = 0, Days = 1, Hours = 0, Minutes = 0, Seconds = 0\<rparr> = Hour * 24 \<and>
   ToEstimatedDuration \<lparr>Years = 0, Months = 0, Weeks = 0, Days = 0, Hours = 1, Minutes = 0, Seconds = 0\<rparr> = Hour \<and>
   ToEstimatedDuration \<lparr>Years = 0, Months = 0, Weeks = 0, Days = 0, Hours = 0, Minutes = 1, Seconds = 0\<rparr> = Minute \<and>
   ToEstimatedDuration \<lparr>Years = 0, Months = 0, Weeks = 0, Days = 0, Hours = 0, Minutes = 0, Seconds = 1\<rparr> = Second"
proof -
  have "sint (ToEstimatedDuration d) = estimateExact d"
    if "nonNegative d" "estimateExact d < 2 ^ 63"
    unfolding ToEstimatedDuration_word
    using estimateExact_nonneg [OF that(1)] that(2)
    by (intro sint_word_of_int_in_range) simp_all
  then show ?thesis
    by (intro conjI impI ToEstimatedDuration_word ToEstimatedDuration_units) blast
qed

theorem ToEstimatedDuration_exact_in_range_witness:
  "nonNegative \<lparr>Years = 292, Months = 3, Weeks = 0, Days = 0, Hours = 0, Minutes = 0, Seconds = 0\<rparr> \<and>
   sint (ToEstimatedDuration
     \<lparr>Years = 292, Months = 3, Weeks = 0, Days = 0, Hours = 0, Minutes = 0, Seconds = 0\<rparr>) =
     9216288000000000000"
proof -
  let ?d = "\<lparr>Years = 292, Months = 3, Weeks = 0, Days = 0, Hours = 0, Minutes = 0, Seconds = 0 :: int64\<rparr>"
  have nn: "nonNegative ?d" by (simp add: nonNegative_def)
  have ex: "estimateExact ?d = 9216288000000000000"
    by (simp add: estimateExact_def hourNanos_def)
  from ToEstimatedDuration_exact_in_range [of ?d] nn ex
  have "sint (ToEstimatedDuration ?d) = 9216288000000000000" by simp
  with nn show ?thesis by (intro conjI)
qed

text \<open>
  C4 as stated fails: 293 years have nonnegative fields, the sum of the claim is
  9240048000000000000 nanoseconds, and \<open>ToEstimatedDuration\<close> returns a negative span.
\<close>

theorem ToEstimatedDuration_overflow_counterexample:
  "nonNegative \<lparr>Years = 293, Months = 0, Weeks = 0, Days = 0, Hours = 0, Minutes = 0, Seconds = 0\<rparr> \<and>
   estimateExact \<lparr>Years = 293, Months = 0, Weeks = 0, Days = 0, Hours = 0, Minutes = 0, Seconds = 0\<rparr> =
     9240048000000000000 \<and>
   sint (ToEstimatedDuration
     \<lparr>Years = 293, Months = 0, Weeks = 0, Days = 0, Hours = 0, Minutes = 0, Seconds = 0\<rparr>) =
     - 9206696073709551616"
  by (simp add: nonNegative_def estimateExact_def hourNanos_def ToEstimatedDuration_def Let_def
      time_constants)

end
